theory Spec2Isabelle
  imports Complex_Main "HOL-Library.Multiset" "HOL-Library.Sublist"
begin

section \<open>The in-memory vector store (langchain/src/vectorstores/memory.ts)\<close>

text \<open>
  The embedding of \<^verbatim>\<open>MemoryVectorStore\<close> and \<^verbatim>\<open>MemorySemanticVectorStore\<close>.
  Conventions:
  \<^item> an embedding (\<^verbatim>\<open>number[]\<close>) is a value of a type \<open>'e\<close>; the code hands it to the
    similarity function and never looks inside;
  \<^item> a similarity score (\<^verbatim>\<open>number\<close>) is a value of the type \<open>number\<close> below: NaN, or a
    number read as a real. The records keep the type of scores as a parameter \<open>'s\<close>; the
    functions that compare scores take it to be \<open>number\<close>;
  \<^item> \<^verbatim>\<open>async\<close> functions are modelled by their results: the code awaits every promise at
    once and no two calls overlap;
  \<^item> a thrown exception is an \<open>Inl\<close> result;
  \<^item> functions of the host and of other packages (\<^verbatim>\<open>crypto\<close>'s MD5, \<^verbatim>\<open>ml-distance\<close>'s cosine,
    \<^verbatim>\<open>JSON.parse\<close>, \<^verbatim>\<open>JSON.stringify\<close>, the embedding provider) are parameters.
\<close>

subsection \<open>Numbers\<close>

text \<open>
  A JavaScript number as the comparisons see it: NaN, or a number. The tests \<^verbatim>\<open>></\<close>, \<^verbatim>\<open><\<close>
  and \<^verbatim>\<open>>=\<close> are false as soon as one side is NaN. (The default cosine of \<^verbatim>\<open>ml-distance\<close>
  divides by the product of the norms and is NaN on a zero vector.)
\<close>

datatype number = NaN | Num real

fun js_gt :: "number \<Rightarrow> number \<Rightarrow> bool" where
  "js_gt (Num a) (Num b) = (b < a)"
| "js_gt _ _ = False"

fun js_lt :: "number \<Rightarrow> number \<Rightarrow> bool" where
  "js_lt (Num a) (Num b) = (a < b)"
| "js_lt _ _ = False"

fun js_ge :: "number \<Rightarrow> number \<Rightarrow> bool" where
  "js_ge (Num a) (Num b) = (b \<le> a)"
| "js_ge _ _ = False"

subsection \<open>Data model\<close>

text \<open>\<^verbatim>\<open>Document\<close> (document.js): page content and metadata.\<close>

record 'm Document =
  pageContent :: string
  metadata :: 'm

text \<open>\<^verbatim>\<open>interface MemoryVector\<close>.\<close>

record ('e, 'm) MemoryVector =
  content :: string
  embedding :: 'e
  metadata :: 'm

text \<open>
  The \<^verbatim>\<open>Embeddings\<close> collaborator (embeddings/base.js): one call embeds a batch of texts,
  one call embeds a query.
\<close>

record 'e Embeddings =
  embedDocuments :: "string list \<Rightarrow> 'e list"
  embedQuery :: "string \<Rightarrow> 'e"

text \<open>
  \<^verbatim>\<open>class MemoryVectorStore\<close>: the provider it was built with (a field of the base class
  \<^verbatim>\<open>VectorStore\<close>), the stored vectors and the similarity function.
\<close>

record ('e, 's, 'm) MemoryVectorStore =
  embeddings :: "'e Embeddings"
  memoryVectors :: "('e, 'm) MemoryVector list"
  similarity :: "'e \<Rightarrow> 'e \<Rightarrow> 's"

datatype error = Error string | TypeError

text \<open>
  The constructor: \<^verbatim>\<open>this.similarity = similarity ?? ml_distance_similarity.cosine\<close>. The
  library's cosine is the parameter \<open>cosine\<close>; an absent argument is \<open>None\<close>.
\<close>

definition new_MemoryVectorStore ::
  "('e \<Rightarrow> 'e \<Rightarrow> 's) \<Rightarrow> 'e Embeddings \<Rightarrow> ('e \<Rightarrow> 'e \<Rightarrow> 's) option \<Rightarrow> ('e, 's, 'm) MemoryVectorStore" where
  "new_MemoryVectorStore cosine emb sim_arg =
     \<lparr>embeddings = emb, memoryVectors = [],
      similarity = (case sim_arg of Some f \<Rightarrow> f | None \<Rightarrow> cosine)\<rparr>"

text \<open>
  \<^verbatim>\<open>addVectors\<close>: \<^verbatim>\<open>vectors.map((embedding, idx) => ... documents[idx] ...)\<close>, appended to the
  store. With more vectors than documents, \<^verbatim>\<open>documents[idx]\<close> is \<^verbatim>\<open>undefined\<close> and reading its
  \<^verbatim>\<open>pageContent\<close> throws a TypeError; with fewer, the surplus documents are left out.
\<close>

definition addVectors ::
  "('e, 's, 'm) MemoryVectorStore \<Rightarrow> 'e list \<Rightarrow> 'm Document list \<Rightarrow> error + ('e, 's, 'm) MemoryVectorStore" where
  "addVectors store vectors documents =
     (if length documents < length vectors then Inl TypeError
      else Inr (store\<lparr>memoryVectors := memoryVectors store @
             map (\<lambda>(e, idx). \<lparr>content = pageContent (documents ! idx), embedding = e,
                              metadata = Document.metadata (documents ! idx)\<rparr>)
                 (zip vectors [0..<length vectors])\<rparr>))"

text \<open>\<^verbatim>\<open>addDocuments\<close>: embed the page contents, then \<^verbatim>\<open>addVectors\<close>.\<close>

definition addDocuments ::
  "('e, 's, 'm) MemoryVectorStore \<Rightarrow> 'm Document list \<Rightarrow> error + ('e, 's, 'm) MemoryVectorStore" where
  "addDocuments store documents =
     (let texts = map pageContent documents
      in addVectors store (embedDocuments (embeddings store) texts) documents)"

text \<open>\<^verbatim>\<open>fromExistingIndex\<close>: a new, empty store.\<close>

definition fromExistingIndex ::
  "('e \<Rightarrow> 'e \<Rightarrow> 's) \<Rightarrow> 'e Embeddings \<Rightarrow> ('e \<Rightarrow> 'e \<Rightarrow> 's) option \<Rightarrow> ('e, 's, 'm) MemoryVectorStore" where
  "fromExistingIndex cosine emb dbConfig = new_MemoryVectorStore cosine emb dbConfig"

text \<open>\<^verbatim>\<open>dropIndex\<close>: \<^verbatim>\<open>this.memoryVectors = []\<close>.\<close>

definition dropIndex :: "('e, 's, 'm) MemoryVectorStore \<Rightarrow> ('e, 's, 'm) MemoryVectorStore" where
  "dropIndex store = store\<lparr>memoryVectors := []\<rparr>"

subsection \<open>Array.prototype.sort with the store's comparator\<close>

text \<open>
  The objects sorted by the search: \<^verbatim>\<open>{ similarity, index }\<close>.
\<close>

record 's search =
  similarity :: 's
  index :: nat

text \<open>
  The comparator \<^verbatim>\<open>(a, b) => (a.similarity > b.similarity ? -1 : 0)\<close>. It never returns a
  positive number, and it returns 0 whenever a score is NaN.
\<close>

definition compareFn :: "number search \<Rightarrow> number search \<Rightarrow> int" where
  "compareFn a b = (if js_gt (search.similarity a) (search.similarity b) then - 1 else 0)"

text \<open>
  \<^verbatim>\<open>Array.prototype.sort\<close>. The comparator is not a consistent one in ECMAScript's sense, so
  the language leaves the order to the engine, and the model is the engine's algorithm:
  V8 (Node.js) sorts an array of fewer than 64 elements as one run. \<^verbatim>\<open>CountAndMakeRun\<close>
  takes the longest prefix that is a run (descending when \<^verbatim>\<open>comparefn(a[1], a[0]) < 0\<close>, and
  then continued while \<^verbatim>\<open>comparefn(a[i], a[i-1]) < 0\<close> and reversed in place; else continued
  while \<^verbatim>\<open>comparefn(a[i], a[i-1]) >= 0\<close>). \<^verbatim>\<open>BinaryInsertionSort\<close> then inserts each further
  element \<^verbatim>\<open>pivot\<close> into the prefix before it, at the index a binary search finds:
  \<^verbatim>\<open>if (comparefn(pivot, a[mid]) < 0) right = mid; else left = mid + 1\<close>.

  An array of 64 elements or more is cut into runs made this way and neighbouring runs
  are merged. Where no score is NaN the comparator's test is the strict part of a linear
  preorder, the merged result is the one stable arrangement, and it is what the
  definition below gives (lemmas \<open>sorted_sort_js\<close>, \<open>filter_sort_js\<close>, \<open>mset_sort_js\<close>);
  the definition writes the one-run algorithm for every length.
\<close>

text \<open>
  The loop of \<^verbatim>\<open>CountAndMakeRun\<close>: how many of the elements after \<open>previousElement\<close>
  continue the run.
\<close>

fun countRun :: "('a \<Rightarrow> 'a \<Rightarrow> int) \<Rightarrow> bool \<Rightarrow> 'a \<Rightarrow> 'a list \<Rightarrow> nat" where
  "countRun cmp isDescending previousElement [] = 0"
| "countRun cmp isDescending previousElement (currentElement # rest) =
     (let order = cmp currentElement previousElement
      in if (if isDescending then order \<ge> 0 else order < 0) then 0
         else Suc (countRun cmp isDescending currentElement rest))"

text \<open>\<^verbatim>\<open>CountAndMakeRun\<close> on the whole array: the run's length and the array after it.\<close>

fun CountAndMakeRun :: "('a \<Rightarrow> 'a \<Rightarrow> int) \<Rightarrow> 'a list \<Rightarrow> nat \<times> 'a list" where
  "CountAndMakeRun cmp (elementHigh # elementLow # rest) =
     (let order = cmp elementLow elementHigh;
          isDescending = (order < 0);
          runLength = 2 + countRun cmp isDescending elementLow rest;
          workArray = elementHigh # elementLow # rest
      in (runLength,
          if isDescending then rev (take runLength workArray) @ drop runLength workArray
          else workArray))"
| "CountAndMakeRun cmp workArray = (length workArray, workArray)"

text \<open>
  The binary search of \<^verbatim>\<open>BinaryInsertionSort\<close>. It reads \<open>workArray\<close> below \<open>right\<close> only,
  and is called with \<open>right\<close> the length of the sorted prefix.
\<close>

function binarySearch :: "('a \<Rightarrow> 'a \<Rightarrow> int) \<Rightarrow> 'a list \<Rightarrow> 'a \<Rightarrow> nat \<Rightarrow> nat \<Rightarrow> nat" where
  "binarySearch cmp workArray pivot left right =
     (if left < right then
        (let mid = left + (right - left) div 2;
             order = cmp pivot (workArray ! mid)
         in if order < 0 then binarySearch cmp workArray pivot left mid
            else binarySearch cmp workArray pivot (mid + 1) right)
      else left)"
  by pat_completeness auto
termination
  by (relation "measure (\<lambda>(cmp, workArray, pivot, left, right). right - left)") auto

declare binarySearch.simps [simp del]

text \<open>One round of \<^verbatim>\<open>BinaryInsertionSort\<close>: the pivot is put at the index found.\<close>

definition insertPivot :: "('a \<Rightarrow> 'a \<Rightarrow> int) \<Rightarrow> 'a list \<Rightarrow> 'a \<Rightarrow> 'a list" where
  "insertPivot cmp sortedPrefix pivot =
     (let left = binarySearch cmp sortedPrefix pivot 0 (length sortedPrefix)
      in take left sortedPrefix @ pivot # drop left sortedPrefix)"

definition BinaryInsertionSort :: "('a \<Rightarrow> 'a \<Rightarrow> int) \<Rightarrow> 'a list \<Rightarrow> 'a list \<Rightarrow> 'a list" where
  "BinaryInsertionSort cmp sortedPrefix rest = foldl (insertPivot cmp) sortedPrefix rest"

text \<open>The sort: nothing to do below two elements; else the run, then the insertions.\<close>

definition sort_js :: "('a \<Rightarrow> 'a \<Rightarrow> int) \<Rightarrow> 'a list \<Rightarrow> 'a list" where
  "sort_js cmp xs =
     (if length xs < 2 then xs
      else (let (runLength, workArray) = CountAndMakeRun cmp xs
            in BinaryInsertionSort cmp (take runLength workArray) (drop runLength workArray)))"

subsection \<open>similaritySearchVectorWithScore\<close>

text \<open>\<^verbatim>\<open>filterFunction\<close>: an absent filter keeps every vector; a filter sees the document view.\<close>

definition filterFunction :: "('m Document \<Rightarrow> bool) option \<Rightarrow> ('e, 'm) MemoryVector \<Rightarrow> bool" where
  "filterFunction flt memoryVector =
     (case flt of
        None \<Rightarrow> True
      | Some f \<Rightarrow> f \<lparr>pageContent = content memoryVector,
                     metadata = MemoryVector.metadata memoryVector\<rparr>)"

definition filteredMemoryVectors ::
  "('e, 's, 'm) MemoryVectorStore \<Rightarrow> ('m Document \<Rightarrow> bool) option \<Rightarrow> ('e, 'm) MemoryVector list" where
  "filteredMemoryVectors store flt = filter (filterFunction flt) (memoryVectors store)"

text \<open>
  \<^verbatim>\<open>searches\<close>: map with the index, sort, \<^verbatim>\<open>slice(0, k)\<close>. The count \<open>k\<close> is a natural
  number (\<^verbatim>\<open>slice\<close> truncates a fraction; the claims are about \<open>k \<ge> 0\<close>).
\<close>

definition searches ::
  "('e, number, 'm) MemoryVectorStore \<Rightarrow> 'e \<Rightarrow> nat \<Rightarrow> ('m Document \<Rightarrow> bool) option \<Rightarrow> number search list" where
  "searches store query k flt =
     (let fmv = filteredMemoryVectors store flt
      in take k (sort_js compareFn
           (map (\<lambda>(vector, idx). \<lparr>similarity = MemoryVectorStore.similarity store query (embedding vector),
                                  index = idx\<rparr>)
                (zip fmv [0..<length fmv]))))"

text \<open>
  The result: each search mapped to the document at its index and its score. Every index
  is below the length of the filtered array (lemma \<open>searches_index\<close>), so the read
  \<^verbatim>\<open>filteredMemoryVectors[search.index]\<close> is never out of range.
\<close>

definition similaritySearchVectorWithScore ::
  "('e, number, 'm) MemoryVectorStore \<Rightarrow> 'e \<Rightarrow> nat \<Rightarrow> ('m Document \<Rightarrow> bool) option
     \<Rightarrow> ('m Document \<times> number) list" where
  "similaritySearchVectorWithScore store query k flt =
     (let fmv = filteredMemoryVectors store flt
      in map (\<lambda>search.
               (\<lparr>pageContent = content (fmv ! index search),
                 metadata = MemoryVector.metadata (fmv ! index search)\<rparr>,
                search.similarity search))
             (searches store query k flt))"

text \<open>
  The words of the claims about the search, written without the functions above: the
  document view of a record (\<^verbatim>\<open>new Document({ metadata, pageContent })\<close>), the records that
  pass the caller's filter (all of them when there is none), a record paired with its
  score against the query, and the scores of a list of pairs being all numbers.
\<close>

definition doc_of :: "('e, 'm) MemoryVector \<Rightarrow> 'm Document" where
  "doc_of v = \<lparr>pageContent = content v, metadata = MemoryVector.metadata v\<rparr>"

definition recordsPassing ::
  "('m Document \<Rightarrow> bool) option \<Rightarrow> ('e, 'm) MemoryVector list \<Rightarrow> ('e, 'm) MemoryVector list" where
  "recordsPassing flt vs = (case flt of None \<Rightarrow> vs | Some f \<Rightarrow> filter (\<lambda>v. f (doc_of v)) vs)"

definition scored ::
  "('e, 's, 'm) MemoryVectorStore \<Rightarrow> 'e \<Rightarrow> ('e, 'm) MemoryVector \<Rightarrow> 'm Document \<times> 's" where
  "scored store query v = (doc_of v, MemoryVectorStore.similarity store query (embedding v))"

definition noNaN :: "('d \<times> number) list \<Rightarrow> bool" where
  "noNaN rs = list_all (\<lambda>r. snd r \<noteq> NaN) rs"

text \<open>For the proofs: the comparator's test read on such a pair, and a pair's score as a real.\<close>

definition compareScore :: "'d \<times> number \<Rightarrow> 'd \<times> number \<Rightarrow> int" where
  "compareScore a b = (if js_gt (snd a) (snd b) then - 1 else 0)"

fun realScore :: "'d \<times> number \<Rightarrow> real" where
  "realScore (d, Num x) = x"
| "realScore (d, NaN) = 0"

definition compareReal :: "'d \<times> number \<Rightarrow> 'd \<times> number \<Rightarrow> int" where
  "compareReal a b = (if realScore b < realScore a then - 1 else 0)"

section \<open>The semantic cache\<close>

subsection \<open>Host functions and payloads\<close>

text \<open>A parsed JSON value.\<close>

datatype json =
  JNull | JBool bool | JNumber real | JString string
| JArray "json list" | JObject "(string \<times> json) list"

text \<open>
  What the cache takes from outside the repository: \<^verbatim>\<open>crypto\<close>'s MD5 hex digest,
  \<^verbatim>\<open>ml-distance\<close>'s cosine, \<^verbatim>\<open>JSON.parse\<close> (\<open>None\<close> when it throws a SyntaxError) and
  \<^verbatim>\<open>JSON.stringify\<close>.
\<close>

record ('e, 's) host =
  md5_hex :: "string \<Rightarrow> string"
  ml_cosine :: "'e \<Rightarrow> 'e \<Rightarrow> 's"
  JSON_parse :: "string \<Rightarrow> json option"
  JSON_stringify :: "json \<Rightarrow> string"

text \<open>\<^verbatim>\<open>Generation\<close> (schema/index.js): the text and the optional generation info.\<close>

record Generation =
  text' :: string
  generationInfo :: "json option"

text \<open>The metadata \<^verbatim>\<open>update\<close> packs: \<^verbatim>\<open>{ llm_string, prompt, return_val }\<close>.\<close>

record cache_metadata =
  llm_string :: string
  prompt :: string
  return_val :: string

definition hash :: "('e, 's) host \<Rightarrow> string \<Rightarrow> string" where
  "hash H input = md5_hex H input"

text \<open>
  The callback of \<^verbatim>\<open>results.map\<close> in \<^verbatim>\<open>loadGenerationsFromJson\<close>. \<open>None\<close> is a throw: the
  explicit one when \<^verbatim>\<open>typeof generationDict.text !== "string"\<close> (a missing \<^verbatim>\<open>text\<close>, or the
  property read on a number, string, boolean or array, is \<^verbatim>\<open>undefined\<close>), or the TypeError
  of reading \<^verbatim>\<open>text\<close> of \<^verbatim>\<open>null\<close>. Otherwise \<^verbatim>\<open>new GenerationChunk(generationDict)\<close>, whose
  constructor (not among the sources) is taken to copy the two fields the parameter's
  type names.
\<close>

fun loadGeneration :: "json \<Rightarrow> Generation option" where
  "loadGeneration (JObject generationDict) =
     (case map_of generationDict ''text'' of
        Some (JString t) \<Rightarrow>
          Some \<lparr>text' = t, generationInfo = map_of generationDict ''generationInfo''\<rparr>
      | _ \<Rightarrow> None)"
| "loadGeneration _ = None"

text \<open>\<^verbatim>\<open>results.map(callback)\<close>: the first throw ends the loop.\<close>

fun loadGenerations :: "json list \<Rightarrow> Generation list option" where
  "loadGenerations [] = Some []"
| "loadGenerations (j # js) =
     (case loadGeneration j of
        None \<Rightarrow> None
      | Some g \<Rightarrow> (case loadGenerations js of None \<Rightarrow> None | Some gs \<Rightarrow> Some (g # gs)))"

text \<open>
  \<^verbatim>\<open>loadGenerationsFromJson\<close>: whatever is thrown inside the \<^verbatim>\<open>try\<close> (the SyntaxError of
  \<^verbatim>\<open>JSON.parse\<close>, the TypeError of \<^verbatim>\<open>results.map\<close> when the parsed value is not an array,
  a throw of the callback) is caught and replaced by one error, whose message ends with
  the raw payload.
\<close>

definition decode_message :: string where
  "decode_message = ''Could not decode json to list of generations: ''"

definition loadGenerationsFromJson :: "('e, 's) host \<Rightarrow> string \<Rightarrow> error + Generation list" where
  "loadGenerationsFromJson H generationsJson =
     (case JSON_parse H generationsJson of
        Some (JArray results) \<Rightarrow>
          (case loadGenerations results of
             Some gs \<Rightarrow> Inr gs
           | None \<Rightarrow> Inl (Error (decode_message @ generationsJson)))
      | _ \<Rightarrow> Inl (Error (decode_message @ generationsJson)))"

text \<open>\<^verbatim>\<open>dumpGenerationsToJson\<close>: each generation becomes \<^verbatim>\<open>{ text: generation.text }\<close>.\<close>

definition dumpGenerationsToJson :: "('e, 's) host \<Rightarrow> Generation list \<Rightarrow> string" where
  "dumpGenerationsToJson H generations =
     JSON_stringify H (JArray (map (\<lambda>generation. JObject [(''text'', JString (text' generation))]) generations))"

subsection \<open>The threshold retriever\<close>

text \<open>
  Modelled from the spec: \<^verbatim>\<open>ScoreThresholdRetriever\<close> (retrievers/score_threshold.js) is
  imported by memory.ts and is not among the sources. The spec, section 4.4: it wraps a
  store with \<^verbatim>\<open>minSimilarityScore\<close> and \<^verbatim>\<open>maxK\<close>; \<^verbatim>\<open>retrieve(queryText)\<close> embeds the query
  text, invokes the search with \<^verbatim>\<open>k = maxK\<close> and no predicate, then filters out every result
  whose score is strictly below \<^verbatim>\<open>minSimilarityScore\<close>, and returns the documents (an empty
  sequence when nothing clears the threshold). Section 2: \<^verbatim>\<open>update\<close> embeds the prompt and
  appends to the namespace's store, so the retriever's \<^verbatim>\<open>addDocuments\<close> is the store's.
\<close>

record ('e, 's, 'm) ScoreThresholdRetriever =
  vectorStore :: "('e, 's, 'm) MemoryVectorStore"
  minSimilarityScore :: 's
  maxK :: nat

text \<open>
  Modelled from the spec: \<^verbatim>\<open>ScoreThresholdRetriever.fromVectorStore\<close>, which wraps the store
  with the two parameters (section 4.4).
\<close>

definition fromVectorStore ::
  "('e, 's, 'm) MemoryVectorStore \<Rightarrow> 's \<Rightarrow> nat \<Rightarrow> ('e, 's, 'm) ScoreThresholdRetriever" where
  "fromVectorStore store minScore k = \<lparr>vectorStore = store, minSimilarityScore = minScore, maxK = k\<rparr>"

text \<open>
  Modelled from the spec: \<^verbatim>\<open>getRelevantDocuments\<close>, the \<^verbatim>\<open>retrieve(queryText)\<close> of section
  4.4: embed the query text, search with \<^verbatim>\<open>k = maxK\<close>, drop the results whose score is
  strictly below \<^verbatim>\<open>minSimilarityScore\<close>, return the documents.
\<close>

definition getRelevantDocuments ::
  "('e, number, 'm) ScoreThresholdRetriever \<Rightarrow> string \<Rightarrow> 'm Document list" where
  "getRelevantDocuments r queryText =
     (let store = vectorStore r;
          queryEmbedding = embedQuery (embeddings store) queryText;
          results = similaritySearchVectorWithScore store queryEmbedding (maxK r) None
      in map fst (filter (\<lambda>(doc, score). \<not> js_lt score (minSimilarityScore r)) results))"

text \<open>
  Modelled from the spec: the retriever's \<^verbatim>\<open>addDocuments\<close>, by which \<^verbatim>\<open>update\<close> appends to
  the namespace's store (sections 2 and 4.5): the store's \<^verbatim>\<open>addDocuments\<close>.
\<close>

definition retriever_addDocuments ::
  "('e, 's, 'm) ScoreThresholdRetriever \<Rightarrow> 'm Document list \<Rightarrow> error + ('e, 's, 'm) MemoryVectorStore" where
  "retriever_addDocuments r documents = addDocuments (vectorStore r) documents"

subsection \<open>MemorySemanticVectorStore\<close>

text \<open>
  The class extends \<^verbatim>\<open>MemoryVectorStore\<close> with the namespace dictionary and the threshold.
  The dictionary holds the stores themselves; a retriever built over one of them shares
  it, which the model writes as storing the changed store back under its index name.
\<close>

record ('e, 's, 'm) MemorySemanticVectorStore = "('e, 's, 'm) MemoryVectorStore" +
  cacheDict :: "string \<rightharpoonup> ('e, 's, cache_metadata) MemoryVectorStore"
  scoreThreshold :: 's

text \<open>The constructor: \<^verbatim>\<open>scoreThreshold = 0.2\<close> by default, an empty dictionary.\<close>

definition new_MemorySemanticVectorStore ::
  "('e, number) host \<Rightarrow> 'e Embeddings \<Rightarrow> number option \<Rightarrow> ('e \<Rightarrow> 'e \<Rightarrow> number) option
     \<Rightarrow> ('e, number, 'm) MemorySemanticVectorStore" where
  "new_MemorySemanticVectorStore H emb thr sim_arg =
     \<lparr>embeddings = emb, memoryVectors = [],
      similarity = (case sim_arg of Some f \<Rightarrow> f | None \<Rightarrow> ml_cosine H),
      cacheDict = Map.empty,
      scoreThreshold = (case thr of Some t \<Rightarrow> t | None \<Rightarrow> Num 0.2)\<rparr>"

definition indexName :: "('e, 's) host \<Rightarrow> string \<Rightarrow> string" where
  "indexName H llmKey = (let hashedIndex = hash H llmKey in ''cache:'' @ hashedIndex)"

text \<open>
  \<^verbatim>\<open>getLlmCache\<close>: the retriever over the key's store, with \<^verbatim>\<open>maxK: 1\<close>; the store is created
  (by \<^verbatim>\<open>MemoryVectorStore.fromExistingIndex(this.embeddings)\<close>, so with the default cosine)
  and entered in the dictionary when the index name is not in it. (\<^verbatim>\<open>in\<close> also sees
  inherited properties of the dictionary object; no index name, which starts with
  \<^verbatim>\<open>cache:\<close>, is one.)
\<close>

definition getLlmCache ::
  "('e, 's) host \<Rightarrow> ('e, 's, 'm) MemorySemanticVectorStore \<Rightarrow> string
     \<Rightarrow> ('e, 's, cache_metadata) ScoreThresholdRetriever \<times> ('e, 's, 'm) MemorySemanticVectorStore" where
  "getLlmCache H c llmKey =
     (let idx = indexName H llmKey
      in case cacheDict c idx of
           Some store \<Rightarrow> (fromVectorStore store (scoreThreshold c) 1, c)
         | None \<Rightarrow>
             (let store = fromExistingIndex (ml_cosine H) (embeddings c) None
              in (fromVectorStore store (scoreThreshold c) 1,
                  c\<lparr>cacheDict := (cacheDict c)(idx \<mapsto> store)\<rparr>)))"

text \<open>
  \<^verbatim>\<open>clear\<close>: \<^verbatim>\<open>dropIndex\<close> empties the store object, then the entry is deleted. The call
  changes two objects, the store and the cache; \<open>clear_objects\<close> gives both as they are
  after the call (no store when the index name is not in the dictionary). The store is
  no longer reachable from the cache, and \<open>clear\<close> is the cache alone.
\<close>

definition clear_objects ::
  "('e, 's) host \<Rightarrow> ('e, 's, 'm) MemorySemanticVectorStore \<Rightarrow> string
     \<Rightarrow> ('e, 's, cache_metadata) MemoryVectorStore option \<times> ('e, 's, 'm) MemorySemanticVectorStore" where
  "clear_objects H c llmKey =
     (let idx = indexName H llmKey
      in case cacheDict c idx of
           Some store \<Rightarrow>
             (let dropped = dropIndex store
              in (Some dropped,
                  c\<lparr>cacheDict := ((cacheDict c)(idx \<mapsto> dropped))(idx := None)\<rparr>))
         | None \<Rightarrow> (None, c))"

definition clear ::
  "('e, 's) host \<Rightarrow> ('e, 's, 'm) MemorySemanticVectorStore \<Rightarrow> string \<Rightarrow> ('e, 's, 'm) MemorySemanticVectorStore" where
  "clear H c llmKey = snd (clear_objects H c llmKey)"

text \<open>The loop of \<^verbatim>\<open>lookup\<close> over the retrieved documents; a decoding error leaves it.\<close>

fun concatGenerations ::
  "('e, 's) host \<Rightarrow> Generation list \<Rightarrow> cache_metadata Document list \<Rightarrow> error + Generation list" where
  "concatGenerations H generations [] = Inr generations"
| "concatGenerations H generations (document # rest) =
     (case loadGenerationsFromJson H (return_val (Document.metadata document)) of
        Inl e \<Rightarrow> Inl e
      | Inr gs \<Rightarrow> concatGenerations H (generations @ gs) rest)"

text \<open>\<^verbatim>\<open>lookup\<close>: the result (\<open>None\<close> is \<^verbatim>\<open>null\<close>) and the cache after the call.\<close>

definition lookup ::
  "('e, number) host \<Rightarrow> ('e, number, 'm) MemorySemanticVectorStore \<Rightarrow> string \<Rightarrow> string
     \<Rightarrow> (error + Generation list option) \<times> ('e, number, 'm) MemorySemanticVectorStore" where
  "lookup H c prompt' llmKey =
     (let (llmCache, c1) = getLlmCache H c llmKey;
          results = getRelevantDocuments llmCache prompt'
      in (case concatGenerations H [] results of
            Inl e \<Rightarrow> Inl e
          | Inr generations \<Rightarrow> Inr (if length generations > 0 then Some generations else None),
          c1))"

text \<open>\<^verbatim>\<open>update\<close>: one document, added through the retriever.\<close>

definition update ::
  "('e, 's) host \<Rightarrow> ('e, 's, 'm) MemorySemanticVectorStore \<Rightarrow> string \<Rightarrow> string \<Rightarrow> Generation list
     \<Rightarrow> (error + unit) \<times> ('e, 's, 'm) MemorySemanticVectorStore" where
  "update H c prompt' llmKey returnVal =
     (let (llmCache, c1) = getLlmCache H c llmKey;
          md = \<lparr>llm_string = llmKey, prompt = prompt',
                return_val = dumpGenerationsToJson H returnVal\<rparr>;
          document = \<lparr>pageContent = prompt', metadata = md\<rparr>
      in case retriever_addDocuments llmCache [document] of
           Inl e \<Rightarrow> (Inl e, c1)
         | Inr store \<Rightarrow> (Inr (), c1\<lparr>cacheDict := (cacheDict c1)(indexName H llmKey \<mapsto> store)\<rparr>))"

subsection \<open>Sequences of calls\<close>

text \<open>A call of the cache's interface, and the cache after a sequence of calls.\<close>

datatype op = Lookup string string | Update string string "Generation list" | Clear string

fun step ::
  "('e, number) host \<Rightarrow> ('e, number, 'm) MemorySemanticVectorStore \<Rightarrow> op
     \<Rightarrow> ('e, number, 'm) MemorySemanticVectorStore" where
  "step H c (Lookup prompt' llmKey) = snd (lookup H c prompt' llmKey)"
| "step H c (Update prompt' llmKey returnVal) = snd (update H c prompt' llmKey returnVal)"
| "step H c (Clear llmKey) = clear H c llmKey"

definition run ::
  "('e, number) host \<Rightarrow> ('e, number, 'm) MemorySemanticVectorStore \<Rightarrow> op list
     \<Rightarrow> ('e, number, 'm) MemorySemanticVectorStore" where
  "run H c ops = foldl (step H) c ops"

text \<open>
  Whether the store of \<open>key\<close> exists after the calls \<open>ops\<close>, given whether it existed
  before them, in two readings. \<open>updated_since_clear\<close> is the specification's: an update
  of the namespace makes the store, a clear removes it, a lookup changes nothing.
  \<open>touched_since_clear\<close> lets a lookup make the store as well. A call is of the namespace of
  \<open>key\<close> when its key has the same index name.
\<close>

fun updated_since_clear :: "('e, 's) host \<Rightarrow> string \<Rightarrow> bool \<Rightarrow> op list \<Rightarrow> bool" where
  "updated_since_clear H key b [] = b"
| "updated_since_clear H key b (Lookup prompt' k # ops) = updated_since_clear H key b ops"
| "updated_since_clear H key b (Update prompt' k v # ops) =
     updated_since_clear H key (if indexName H k = indexName H key then True else b) ops"
| "updated_since_clear H key b (Clear k # ops) =
     updated_since_clear H key (if indexName H k = indexName H key then False else b) ops"

fun touched_since_clear :: "('e, 's) host \<Rightarrow> string \<Rightarrow> bool \<Rightarrow> op list \<Rightarrow> bool" where
  "touched_since_clear H key b [] = b"
| "touched_since_clear H key b (Lookup prompt' k # ops) =
     touched_since_clear H key (if indexName H k = indexName H key then True else b) ops"
| "touched_since_clear H key b (Update prompt' k v # ops) =
     touched_since_clear H key (if indexName H k = indexName H key then True else b) ops"
| "touched_since_clear H key b (Clear k # ops) =
     touched_since_clear H key (if indexName H k = indexName H key then False else b) ops"

text \<open>The records of a key's namespace; none when the namespace is absent.\<close>

definition namespaceVectors ::
  "('e, 's) host \<Rightarrow> ('e, 's, 'm) MemorySemanticVectorStore \<Rightarrow> string
     \<Rightarrow> ('e, cache_metadata) MemoryVector list" where
  "namespaceVectors H c llmKey =
     (case cacheDict c (indexName H llmKey) of None \<Rightarrow> [] | Some store \<Rightarrow> memoryVectors store)"

text \<open>The documents a lookup retrieves, before it decodes them.\<close>

definition matched ::
  "('e, number) host \<Rightarrow> ('e, number, 'm) MemorySemanticVectorStore \<Rightarrow> string \<Rightarrow> string
     \<Rightarrow> cache_metadata Document list" where
  "matched H c prompt' llmKey = getRelevantDocuments (fst (getLlmCache H c llmKey)) prompt'"

text \<open>
  The store a call works on: the one \<^verbatim>\<open>getLlmCache\<close> hands to the retriever. And what
  \<^verbatim>\<open>getLlmCache\<close> maintains: every store of the dictionary has the cache's provider and the
  library's cosine.
\<close>

definition consistent :: "('e, 's) host \<Rightarrow> 'e Embeddings \<Rightarrow> ('e, 's, 'm) MemorySemanticVectorStore \<Rightarrow> bool" where
  "consistent H E c \<longleftrightarrow>
     embeddings c = E
     \<and> (\<forall>i store. cacheDict c i = Some store \<longrightarrow>
           embeddings store = E \<and> MemoryVectorStore.similarity store = ml_cosine H)"

definition namespaceStore ::
  "('e, 's) host \<Rightarrow> ('e, 's, 'm) MemorySemanticVectorStore \<Rightarrow> string
     \<Rightarrow> ('e, 's, cache_metadata) MemoryVectorStore" where
  "namespaceStore H c llmKey = vectorStore (fst (getLlmCache H c llmKey))"

text \<open>
  The words of the specification about payloads: an element of the parsed array "has a
  string \<^verbatim>\<open>text\<close> field"; a retrieved document's payload decodes, and to which entries.
\<close>

fun has_string_text :: "json \<Rightarrow> bool" where
  "has_string_text (JObject generationDict) =
     (case map_of generationDict ''text'' of Some (JString t) \<Rightarrow> True | _ \<Rightarrow> False)"
| "has_string_text _ = False"

definition decodable :: "('e, 's) host \<Rightarrow> cache_metadata Document \<Rightarrow> bool" where
  "decodable H document =
     (case loadGenerationsFromJson H (return_val (Document.metadata document)) of
        Inr gs \<Rightarrow> True | Inl e \<Rightarrow> False)"

definition decodedEntries :: "('e, 's) host \<Rightarrow> cache_metadata Document \<Rightarrow> Generation list" where
  "decodedEntries H document =
     (case loadGenerationsFromJson H (return_val (Document.metadata document)) of
        Inr gs \<Rightarrow> gs | Inl e \<Rightarrow> [])"

subsection \<open>A small host for examples\<close>

text \<open>
  An instance of the parameters on which the model is evaluated: embeddings in the plane,
  the cosine and the dot product of number lists, the identity in place of MD5, and a
  JSON printer and parser that handle the payloads of the examples (arrays of objects
  with one string field whose characters need no escape).
\<close>

definition demo_dot :: "real list \<Rightarrow> real list \<Rightarrow> real" where
  "demo_dot a b = sum_list (map2 (*) a b)"

text \<open>
  The cosine as \<^verbatim>\<open>ml-distance\<close> computes it, \<^verbatim>\<open>p / (Math.sqrt(p2) * Math.sqrt(q2))\<close>: with a
  zero vector this is \<^verbatim>\<open>0 / 0\<close>, NaN.
\<close>

definition demo_cosine :: "real list \<Rightarrow> real list \<Rightarrow> number" where
  "demo_cosine a b =
     (if sqrt (demo_dot a a) * sqrt (demo_dot b b) = 0 then NaN
      else Num (demo_dot a b / (sqrt (demo_dot a a) * sqrt (demo_dot b b))))"

definition demo_embed :: "string \<Rightarrow> real list" where
  "demo_embed t = (if length t \<le> 1 then [1, 0] else [0, 1])"

definition demo_embeddings :: "real list Embeddings" where
  "demo_embeddings = \<lparr>embedDocuments = map demo_embed, embedQuery = demo_embed\<rparr>"

fun demo_object :: "json \<Rightarrow> string" where
  "demo_object (JObject [(k, JString t)]) =
     ''{'' @ [CHR 0x22] @ k @ [CHR 0x22] @ '':'' @ [CHR 0x22] @ t @ [CHR 0x22] @ ''}''"
| "demo_object _ = ''null''"

fun demo_join :: "string list \<Rightarrow> string" where
  "demo_join [] = []"
| "demo_join [x] = x"
| "demo_join (x # y # zs) = x @ '','' @ demo_join (y # zs)"

definition demo_stringify :: "json \<Rightarrow> string" where
  "demo_stringify j =
     (case j of JArray xs \<Rightarrow> ''['' @ demo_join (map demo_object xs) @ '']'' | _ \<Rightarrow> ''null'')"

definition demo_payloads :: "json list" where
  "demo_payloads =
     [JArray [],
      JArray [JNull],
      JArray [JObject [(''text'', JString ''X'')]],
      JArray [JObject [(''text'', JString ''Y'')]]]"

definition demo_parse :: "string \<Rightarrow> json option" where
  "demo_parse s = map_of (map (\<lambda>j. (demo_stringify j, j)) demo_payloads) s"

definition demo_host :: "(real list, number) host" where
  "demo_host = \<lparr>md5_hex = (\<lambda>s. s), ml_cosine = demo_cosine,
                JSON_parse = demo_parse, JSON_stringify = demo_stringify\<rparr>"

definition demo_cache :: "(real list, number, unit) MemorySemanticVectorStore" where
  "demo_cache = new_MemorySemanticVectorStore demo_host demo_embeddings None None"

text \<open>
  A store of three records that score 0.9, 0.95 and 0.95 against the query \<open>[1, 0]\<close>,
  with the dot product as similarity, and a filter that rejects the content \<open>c\<close>.
\<close>

definition demo_store :: "(real list, number, unit) MemoryVectorStore" where
  "demo_store =
     \<lparr>embeddings = demo_embeddings,
      memoryVectors =
        [\<lparr>content = ''a'', embedding = [0.9, 0], metadata = ()\<rparr>,
         \<lparr>content = ''b'', embedding = [0.95, 1], metadata = ()\<rparr>,
         \<lparr>content = ''c'', embedding = [0.95, 2], metadata = ()\<rparr>],
      similarity = (\<lambda>a b. Num (demo_dot a b))\<rparr>"

definition demo_filter :: "unit Document \<Rightarrow> bool" where
  "demo_filter doc = (pageContent doc \<noteq> ''c'')"

text \<open>
  Stores with the default cosine and a zero vector among the embeddings. Against the
  query \<open>[1, 0]\<close> the records of the first score 0, NaN, 1; those of the second score
  1, 1, 0, NaN, 0.6, 0.8, 0.6.
\<close>

definition demo_nan_store :: "(real list, number, unit) MemoryVectorStore" where
  "demo_nan_store =
     \<lparr>embeddings = demo_embeddings,
      memoryVectors =
        [\<lparr>content = ''a'', embedding = [0, 1], metadata = ()\<rparr>,
         \<lparr>content = ''b'', embedding = [0, 0], metadata = ()\<rparr>,
         \<lparr>content = ''c'', embedding = [1, 0], metadata = ()\<rparr>],
      similarity = demo_cosine\<rparr>"

definition demo_nan_ties :: "(real list, number, unit) MemoryVectorStore" where
  "demo_nan_ties =
     \<lparr>embeddings = demo_embeddings,
      memoryVectors =
        [\<lparr>content = ''r0'', embedding = [1, 0], metadata = ()\<rparr>,
         \<lparr>content = ''r1'', embedding = [1, 0], metadata = ()\<rparr>,
         \<lparr>content = ''r2'', embedding = [0, 1], metadata = ()\<rparr>,
         \<lparr>content = ''r3'', embedding = [0, 0], metadata = ()\<rparr>,
         \<lparr>content = ''r4'', embedding = [3, 4], metadata = ()\<rparr>,
         \<lparr>content = ''r5'', embedding = [4, 3], metadata = ()\<rparr>,
         \<lparr>content = ''r6'', embedding = [3, 4], metadata = ()\<rparr>],
      similarity = demo_cosine\<rparr>"

text \<open>A cache whose namespace of key \<open>k\<close> holds one record with the given payload.\<close>

definition demo_bad_cache :: "string \<Rightarrow> (real list, number, unit) MemorySemanticVectorStore" where
  "demo_bad_cache payload =
     demo_cache\<lparr>cacheDict :=
       [indexName demo_host ''k'' \<mapsto>
          \<lparr>embeddings = demo_embeddings,
           memoryVectors =
             [\<lparr>content = ''p'', embedding = [1, 0],
               metadata = \<lparr>llm_string = ''k'', prompt = ''p'', return_val = payload\<rparr>\<rparr>],
           similarity = demo_cosine\<rparr>]\<rparr>"

text \<open>The cache after \<^verbatim>\<open>update("p", "k", [{ text: "Y" }])\<close>.\<close>

definition demo_cache_Y :: "(real list, number, unit) MemorySemanticVectorStore" where
  "demo_cache_Y = snd (update demo_host demo_cache ''p'' ''k'' [\<lparr>text' = ''Y'', generationInfo = None\<rparr>])"

text \<open>The cache after a further \<^verbatim>\<open>update("p", "j", [{ text: "X" }])\<close>: two namespaces.\<close>

definition demo_cache_YJ :: "(real list, number, unit) MemorySemanticVectorStore" where
  "demo_cache_YJ = snd (update demo_host demo_cache_Y ''p'' ''j'' [\<lparr>text' = ''X'', generationInfo = None\<rparr>])"

section \<open>Properties of the sort\<close>

subsection \<open>The sort permutes\<close>

lemma mset_insertPivot: "mset (insertPivot cmp a p) = add_mset p (mset a)"
proof -
  have "mset (take l a @ p # drop l a) = add_mset p (mset (take l a @ drop l a))" for l
    by (simp del: append_take_drop_id)
  then show ?thesis by (simp add: insertPivot_def Let_def)
qed

lemma set_insertPivot: "set (insertPivot cmp a p) = insert p (set a)"
  using mset_insertPivot [of cmp a p] by (metis set_mset_mset set_mset_add_mset_insert)

lemma mset_BinaryInsertionSort: "mset (BinaryInsertionSort cmp a rest) = mset a + mset rest"
  unfolding BinaryInsertionSort_def
  by (induction rest arbitrary: a) (simp_all add: mset_insertPivot)

lemma mset_CountAndMakeRun: "mset (snd (CountAndMakeRun cmp xs)) = mset xs"
proof -
  have r: "mset (rev (take n ys) @ drop n ys) = mset ys" for n and ys :: "'a list"
    by (metis append_take_drop_id mset_append mset_rev)
  show ?thesis
  proof (cases xs)
    case Nil
    then show ?thesis by simp
  next
    case (Cons h t)
    show ?thesis
    proof (cases t)
      case Nil
      with Cons show ?thesis by simp
    next
      case (Cons l rest)
      with \<open>xs = h # t\<close> show ?thesis
        using r [of _ "h # l # rest"] by (simp add: Let_def del: take_Suc_Cons drop_Suc_Cons)
    qed
  qed
qed

lemma mset_sort_js: "mset (sort_js cmp xs) = mset xs"
proof (cases "length xs < 2")
  case True
  then show ?thesis by (simp add: sort_js_def)
next
  case False
  obtain n w where c: "CountAndMakeRun cmp xs = (n, w)" by (cases "CountAndMakeRun cmp xs")
  have "mset w = mset xs" using mset_CountAndMakeRun [of cmp xs] c by simp
  moreover have "mset (take n w) + mset (drop n w) = mset w"
    by (metis append_take_drop_id mset_append)
  ultimately show ?thesis
    using False c by (simp add: sort_js_def mset_BinaryInsertionSort)
qed

lemma length_sort_js: "length (sort_js cmp xs) = length xs"
  using mset_sort_js [of cmp xs] by (metis size_mset)

lemma set_sort_js: "set (sort_js cmp xs) = set xs"
  using mset_sort_js [of cmp xs] by (metis set_mset_mset)

subsection \<open>The sort under a map that keeps the comparator\<close>

lemma countRun_map:
  assumes "\<And>a b. cmp' (g a) (g b) = cmp a b"
  shows "countRun cmp' d (g p) (map g rest) = countRun cmp d p rest"
  by (induction rest arbitrary: p d) (simp_all add: assms Let_def)

lemma CountAndMakeRun_2:
  "CountAndMakeRun cmp (h # l # rest) =
     (2 + countRun cmp (cmp l h < 0) l rest,
      if cmp l h < 0
      then rev (take (2 + countRun cmp (cmp l h < 0) l rest) (h # l # rest))
           @ drop (2 + countRun cmp (cmp l h < 0) l rest) (h # l # rest)
      else h # l # rest)"
  by (simp add: Let_def del: take_Suc_Cons drop_Suc_Cons)

lemma CountAndMakeRun_map:
  assumes "\<And>a b. cmp' (g a) (g b) = cmp a b"
  shows "CountAndMakeRun cmp' (map g xs)
         = (fst (CountAndMakeRun cmp xs), map g (snd (CountAndMakeRun cmp xs)))"
proof (cases xs)
  case Nil
  then show ?thesis by simp
next
  case (Cons h t)
  show ?thesis
  proof (cases t)
    case Nil
    with Cons show ?thesis by simp
  next
    case (Cons l rest)
    let ?ys = "h # l # rest"
    let ?n = "2 + countRun cmp (cmp l h < 0) l rest"
    have m: "g h # g l # map g rest = map g ?ys" by simp
    have s1: "CountAndMakeRun cmp' (g h # g l # map g rest) =
      (2 + countRun cmp' (cmp' (g l) (g h) < 0) (g l) (map g rest),
       if cmp' (g l) (g h) < 0
       then rev (take (2 + countRun cmp' (cmp' (g l) (g h) < 0) (g l) (map g rest))
                  (g h # g l # map g rest))
            @ drop (2 + countRun cmp' (cmp' (g l) (g h) < 0) (g l) (map g rest))
                (g h # g l # map g rest)
       else g h # g l # map g rest)"
      by (rule CountAndMakeRun_2)
    have "CountAndMakeRun cmp' (map g ?ys)
          = (?n, if cmp l h < 0 then rev (take ?n (map g ?ys)) @ drop ?n (map g ?ys)
                 else map g ?ys)"
      using s1 by (simp only: assms countRun_map [of cmp' g cmp, OF assms] m)
    also have "\<dots> = (?n, map g (if cmp l h < 0 then rev (take ?n ?ys) @ drop ?n ?ys else ?ys))"
      by (simp only: rev_map take_map drop_map map_append if_distrib [of "map g"])
    finally show ?thesis
      unfolding \<open>xs = h # t\<close> Cons CountAndMakeRun_2 [of cmp h l rest] by simp
  qed
qed

lemma binarySearch_unfold:
  "binarySearch cmp a p left right =
     (if left < right then
        (if cmp p (a ! (left + (right - left) div 2)) < 0
         then binarySearch cmp a p left (left + (right - left) div 2)
         else binarySearch cmp a p (left + (right - left) div 2 + 1) right)
      else left)"
  by (subst binarySearch.simps) (simp add: Let_def)

lemma binarySearch_map:
  assumes "\<And>a b. cmp' (g a) (g b) = cmp a b"
  shows "right \<le> length a \<Longrightarrow>
         binarySearch cmp' (map g a) (g p) left right = binarySearch cmp a p left right"
proof (induction "right - left" arbitrary: left right rule: less_induct)
  case less
  show ?case
  proof (cases "left < right")
    case False
    then show ?thesis
      by (simp add: binarySearch_unfold [of _ _ _ left right])
  next
    case True
    let ?mid = "left + (right - left) div 2"
    have mid: "?mid < right" using True by linarith
    then have n: "map g a ! ?mid = g (a ! ?mid)" using less.prems by simp
    have l: "binarySearch cmp' (map g a) (g p) left ?mid = binarySearch cmp a p left ?mid"
      using less.hyps [of ?mid left] less.prems mid True by simp
    have r: "binarySearch cmp' (map g a) (g p) (?mid + 1) right = binarySearch cmp a p (?mid + 1) right"
      using less.hyps [of right "?mid + 1"] less.prems mid True by simp
    show ?thesis
      by (subst binarySearch_unfold, subst (2) binarySearch_unfold) (simp only: n assms l r)
  qed
qed

lemma insertPivot_map:
  assumes "\<And>a b. cmp' (g a) (g b) = cmp a b"
  shows "insertPivot cmp' (map g a) (g p) = map g (insertPivot cmp a p)"
  using binarySearch_map [of cmp' g cmp "length a" a p 0, OF assms]
  by (simp add: insertPivot_def Let_def take_map drop_map)

lemma BinaryInsertionSort_map:
  assumes "\<And>a b. cmp' (g a) (g b) = cmp a b"
  shows "BinaryInsertionSort cmp' (map g a) (map g rest) = map g (BinaryInsertionSort cmp a rest)"
  unfolding BinaryInsertionSort_def
  by (induction rest arbitrary: a) (simp_all add: insertPivot_map [of cmp' g cmp, OF assms])

lemma map_sort_js:
  assumes "\<And>a b. cmp' (g a) (g b) = cmp a b"
  shows "map g (sort_js cmp xs) = sort_js cmp' (map g xs)"
proof (cases "length xs < 2")
  case True
  then show ?thesis by (simp add: sort_js_def)
next
  case False
  obtain n w where c: "CountAndMakeRun cmp xs = (n, w)" by (cases "CountAndMakeRun cmp xs")
  then have c': "CountAndMakeRun cmp' (map g xs) = (n, map g w)"
    using CountAndMakeRun_map [of cmp' g cmp xs, OF assms] by simp
  show ?thesis
    using False c c' BinaryInsertionSort_map [of cmp' g cmp "take n w" "drop n w", OF assms]
    by (simp add: sort_js_def take_map drop_map)
qed

subsection \<open>The sort under comparators that agree on the elements\<close>

lemma countRun_cong:
  assumes "\<And>a b. a \<in> S \<Longrightarrow> b \<in> S \<Longrightarrow> (cmp a b < 0) = (cmp' a b < 0)"
  shows "p \<in> S \<Longrightarrow> set rest \<subseteq> S \<Longrightarrow> countRun cmp d p rest = countRun cmp' d p rest"
proof (induction rest arbitrary: p d)
  case Nil
  show ?case by simp
next
  case (Cons c rest)
  have "(cmp c p < 0) = (cmp' c p < 0)" using assms Cons.prems by simp
  moreover have "(0 \<le> cmp c p) = (0 \<le> cmp' c p)" using calculation by linarith
  moreover have "countRun cmp d' c rest = countRun cmp' d' c rest" for d'
    using Cons.IH [of c d'] Cons.prems by simp
  ultimately show ?case by (simp add: Let_def)
qed

lemma CountAndMakeRun_cong:
  assumes "\<And>a b. a \<in> S \<Longrightarrow> b \<in> S \<Longrightarrow> (cmp a b < 0) = (cmp' a b < 0)"
    and "set xs \<subseteq> S"
  shows "CountAndMakeRun cmp xs = CountAndMakeRun cmp' xs"
proof (cases xs)
  case Nil
  then show ?thesis by simp
next
  case (Cons h t)
  show ?thesis
  proof (cases t)
    case Nil
    with Cons show ?thesis by simp
  next
    case (Cons l rest)
    have d: "(cmp l h < 0) = (cmp' l h < 0)"
      using assms \<open>xs = h # t\<close> Cons by simp
    have "countRun cmp d l rest = countRun cmp' d l rest" for d
      using countRun_cong [of S cmp cmp' l rest d] assms \<open>xs = h # t\<close> Cons by simp
    then show ?thesis
      unfolding \<open>xs = h # t\<close> Cons CountAndMakeRun_2 using d by simp
  qed
qed

lemma binarySearch_cong:
  assumes "\<And>a b. a \<in> S \<Longrightarrow> b \<in> S \<Longrightarrow> (cmp a b < 0) = (cmp' a b < 0)"
    and "p \<in> S" and "set a \<subseteq> S"
  shows "right \<le> length a \<Longrightarrow>
         binarySearch cmp a p left right = binarySearch cmp' a p left right"
proof (induction "right - left" arbitrary: left right rule: less_induct)
  case less
  show ?case
  proof (cases "left < right")
    case False
    then show ?thesis
      by (simp add: binarySearch_unfold [of _ _ _ left right])
  next
    case True
    let ?mid = "left + (right - left) div 2"
    have mid: "?mid < right" using True by linarith
    then have "a ! ?mid \<in> set a" using less.prems by simp
    then have e: "(cmp p (a ! ?mid) < 0) = (cmp' p (a ! ?mid) < 0)"
      using assms by blast
    have l: "binarySearch cmp a p left ?mid = binarySearch cmp' a p left ?mid"
      using less.hyps [of ?mid left] less.prems mid True by simp
    have r: "binarySearch cmp a p (?mid + 1) right = binarySearch cmp' a p (?mid + 1) right"
      using less.hyps [of right "?mid + 1"] less.prems mid True by simp
    show ?thesis
      by (subst binarySearch_unfold, subst (2) binarySearch_unfold) (simp only: e l r)
  qed
qed

lemma insertPivot_cong:
  assumes "\<And>a b. a \<in> S \<Longrightarrow> b \<in> S \<Longrightarrow> (cmp a b < 0) = (cmp' a b < 0)"
    and "p \<in> S" and "set a \<subseteq> S"
  shows "insertPivot cmp a p = insertPivot cmp' a p"
  using binarySearch_cong [of S cmp cmp' p a "length a" 0] assms
  by (simp add: insertPivot_def)

lemma BinaryInsertionSort_cong:
  assumes "\<And>a b. a \<in> S \<Longrightarrow> b \<in> S \<Longrightarrow> (cmp a b < 0) = (cmp' a b < 0)"
  shows "set a \<subseteq> S \<Longrightarrow> set rest \<subseteq> S \<Longrightarrow>
         BinaryInsertionSort cmp a rest = BinaryInsertionSort cmp' a rest"
  unfolding BinaryInsertionSort_def
proof (induction rest arbitrary: a)
  case Nil
  show ?case by simp
next
  case (Cons p rest)
  have i: "insertPivot cmp a p = insertPivot cmp' a p"
    using insertPivot_cong [of S cmp cmp' p a] assms Cons.prems by simp
  have "set (insertPivot cmp' a p) \<subseteq> S"
    using Cons.prems by (simp add: set_insertPivot)
  then show ?case using Cons i by simp
qed

lemma sort_js_cong:
  assumes "\<And>a b. a \<in> set xs \<Longrightarrow> b \<in> set xs \<Longrightarrow> (cmp a b < 0) = (cmp' a b < 0)"
  shows "sort_js cmp xs = sort_js cmp' xs"
proof (cases "length xs < 2")
  case True
  then show ?thesis by (simp add: sort_js_def)
next
  case False
  obtain n w where c: "CountAndMakeRun cmp' xs = (n, w)" by (cases "CountAndMakeRun cmp' xs")
  have c': "CountAndMakeRun cmp xs = (n, w)"
    using CountAndMakeRun_cong [of "set xs" cmp cmp' xs] assms c by simp
  have "set w = set xs"
    using mset_CountAndMakeRun [of cmp' xs] c by (metis set_mset_mset snd_conv)
  then have "set (take n w) \<subseteq> set xs" "set (drop n w) \<subseteq> set xs"
    using set_take_subset [of n w] set_drop_subset [of n w] by auto
  then have "BinaryInsertionSort cmp (take n w) (drop n w)
             = BinaryInsertionSort cmp' (take n w) (drop n w)"
    using BinaryInsertionSort_cong [of "set xs" cmp cmp' "take n w" "drop n w"] assms by simp
  then show ?thesis using False c c' by (simp add: sort_js_def)
qed

subsection \<open>The sort under a comparator that tests a linear key\<close>

lemma countRun_le: "countRun cmp d p rest \<le> length rest"
  by (induction rest arbitrary: p) (simp_all add: Let_def)

lemma countRun_sorted:
  assumes trans: "\<And>x y z. R x y \<Longrightarrow> R y z \<Longrightarrow> R x z"
    and step: "\<And>p c. (if d then 0 \<le> cmp c p else cmp c p < 0) = (\<not> R p c)"
  shows "sorted_wrt R (p # take (countRun cmp d p rest) rest)"
proof (induction rest arbitrary: p)
  case Nil
  show ?case by simp
next
  case (Cons c rest)
  show ?case
  proof (cases "R p c")
    case False
    then show ?thesis using step [of c p] by (simp add: Let_def)
  next
    case True
    have s: "sorted_wrt R (c # take (countRun cmp d c rest) rest)" by (rule Cons.IH)
    then have "\<forall>z\<in>set (take (countRun cmp d c rest) rest). R p z"
      using True trans by auto
    then show ?thesis using True s step [of c p] by (simp add: Let_def)
  qed
qed

lemma filter_rev_strict:
  fixes f :: "'a \<Rightarrow> 'b::linorder"
  shows "sorted_wrt (\<lambda>x y. f x < f y) t \<Longrightarrow>
         filter (\<lambda>x. f x = c) (rev t) = filter (\<lambda>x. f x = c) t"
proof (induction t)
  case Nil
  show ?case by simp
next
  case (Cons a t)
  then have ih: "filter (\<lambda>x. f x = c) (rev t) = filter (\<lambda>x. f x = c) t" by simp
  show ?case
  proof (cases "f a = c")
    case True
    then have "\<forall>x\<in>set t. f x \<noteq> c" using Cons.prems by auto
    then have "filter (\<lambda>x. f x = c) t = []" by (simp add: filter_empty_conv)
    then show ?thesis using ih True by simp
  next
    case False
    then show ?thesis using ih by simp
  qed
qed

lemma CountAndMakeRun_key:
  fixes f :: "'a \<Rightarrow> 'b::linorder"
  assumes key: "\<And>a b. (cmp a b < 0) = (f b < f a)"
    and cr: "CountAndMakeRun cmp xs = (n, w)"
  shows "sorted_wrt (\<lambda>x y. f y \<le> f x) (take n w)"
    and "filter (\<lambda>x. f x = c) w = filter (\<lambda>x. f x = c) xs"
proof -
  have both: "sorted_wrt (\<lambda>x y. f y \<le> f x) (take n w)
              \<and> filter (\<lambda>x. f x = c) w = filter (\<lambda>x. f x = c) xs"
  proof (cases xs)
    case Nil
    with cr show ?thesis by auto
  next
    case (Cons h t)
    show ?thesis
    proof (cases t)
      case Nil
      with Cons cr show ?thesis by auto
    next
      case (Cons l rest)
      let ?ys = "h # l # rest"
      let ?d = "cmp l h < 0"
      let ?k = "countRun cmp ?d l rest"
      have xs: "xs = ?ys" using \<open>xs = h # t\<close> Cons by simp
      have n: "n = 2 + ?k"
        and w: "w = (if ?d then rev (take (2 + ?k) ?ys) @ drop (2 + ?k) ?ys else ?ys)"
        using cr unfolding xs CountAndMakeRun_2 by simp_all
      have t: "take (2 + ?k) ?ys = h # l # take ?k rest" by simp
      show ?thesis
      proof (cases ?d)
        case False
        let ?R = "\<lambda>x y. f y \<le> f x"
        have st: "(if ?d then 0 \<le> cmp c p else cmp c p < 0) = (\<not> ?R p c)" for p c
          using False key [of c p] by auto
        have "sorted_wrt ?R (l # take ?k rest)"
          using countRun_sorted [of ?R ?d cmp l rest] st by fastforce
        moreover have "?R h l" using False key by (simp add: not_less)
        ultimately have "sorted_wrt ?R (h # l # take ?k rest)" by fastforce
        then show ?thesis using False n w t xs by simp
      next
        case True
        let ?R = "\<lambda>x y. f x < f y"
        have st: "(if ?d then 0 \<le> cmp c p else cmp c p < 0) = (\<not> ?R p c)" for p c
          using True key [of c p] by auto
        have "sorted_wrt ?R (l # take ?k rest)"
          using countRun_sorted [of ?R ?d cmp l rest] st by fastforce
        moreover have "?R h l" using True key by simp
        ultimately have s0: "sorted_wrt ?R (h # l # take ?k rest)" by fastforce
        define T where "T = take (2 + ?k) ?ys"
        define D where "D = drop (2 + ?k) ?ys"
        have s: "sorted_wrt ?R T" using s0 t by (simp add: T_def)
        have len: "length (rev T) = n"
          using countRun_le [of cmp ?d l rest] n by (simp add: T_def)
        have w': "w = rev T @ D" using True w by (simp only: T_def D_def if_True)
        have g: "take (length A) (A @ B) = A" for A B :: "'a list" by simp
        have tk: "take n w = rev T"
          unfolding w' len [symmetric] by (rule g)
        have "sorted_wrt (\<lambda>x y. f y < f x) (rev T)"
          using s by (simp add: sorted_wrt_rev)
        then have a: "sorted_wrt (\<lambda>x y. f y \<le> f x) (take n w)"
          unfolding tk by (rule sorted_wrt_mono_rel [rotated]) simp
        have "filter (\<lambda>x. f x = c) w
              = filter (\<lambda>x. f x = c) (rev T) @ filter (\<lambda>x. f x = c) D"
          unfolding w' by simp
        also have "\<dots> = filter (\<lambda>x. f x = c) T @ filter (\<lambda>x. f x = c) D"
          using filter_rev_strict [where f = f and t = T and c = c, OF s] by simp
        also have "\<dots> = filter (\<lambda>x. f x = c) ?ys"
          unfolding T_def D_def by (metis append_take_drop_id filter_append)
        finally show ?thesis using a xs by simp
      qed
    qed
  qed
  show "sorted_wrt (\<lambda>x y. f y \<le> f x) (take n w)" using both by simp
  show "filter (\<lambda>x. f x = c) w = filter (\<lambda>x. f x = c) xs" using both by simp
qed

lemma binarySearch_key:
  fixes f :: "'a \<Rightarrow> 'b::linorder"
  assumes key: "\<And>a b. (cmp a b < 0) = (f b < f a)"
    and sorted: "sorted_wrt (\<lambda>x y. f y \<le> f x) a"
  shows "left \<le> right \<Longrightarrow> right \<le> length a \<Longrightarrow>
         \<forall>i<left. f p \<le> f (a ! i) \<Longrightarrow>
         \<forall>i. right \<le> i \<and> i < length a \<longrightarrow> f (a ! i) < f p \<Longrightarrow>
         binarySearch cmp a p left right \<le> length a
         \<and> (\<forall>i<binarySearch cmp a p left right. f p \<le> f (a ! i))
         \<and> (\<forall>i. binarySearch cmp a p left right \<le> i \<and> i < length a \<longrightarrow> f (a ! i) < f p)"
proof (induction "right - left" arbitrary: left right rule: less_induct)
  case less
  show ?case
  proof (cases "left < right")
    case False
    then have "binarySearch cmp a p left right = left"
      by (simp add: binarySearch_unfold [of _ _ _ left right])
    moreover have "left = right" using False less.prems(1) by simp
    ultimately show ?thesis using less.prems by simp
  next
    case True
    let ?mid = "left + (right - left) div 2"
    have mid: "left \<le> ?mid" "?mid < right" using True by linarith+
    have nth: "f (a ! j) \<le> f (a ! i)" if "i < j" "j < length a" for i j
      using sorted_wrt_nth_less [OF sorted that] .
    show ?thesis
    proof (cases "cmp p (a ! ?mid) < 0")
      case True
      then have lt: "f (a ! ?mid) < f p" using key by simp
      have u: "binarySearch cmp a p left right = binarySearch cmp a p left ?mid"
        using True \<open>left < right\<close> by (subst binarySearch_unfold) simp
      have "\<forall>i. ?mid \<le> i \<and> i < length a \<longrightarrow> f (a ! i) < f p"
      proof (intro allI impI)
        fix i assume i: "?mid \<le> i \<and> i < length a"
        show "f (a ! i) < f p"
        proof (cases "i = ?mid")
          case True
          then show ?thesis using lt by simp
        next
          case False
          then have "f (a ! i) \<le> f (a ! ?mid)" using nth [of ?mid i] i by simp
          then show ?thesis using lt by simp
        qed
      qed
      then have h4: "\<forall>i. ?mid \<le> i \<and> i < length a \<longrightarrow> f (a ! i) < f p" .
      have m: "?mid - left < right - left" using mid by linarith
      have le: "?mid \<le> length a" using mid less.prems(2) by linarith
      show ?thesis
        unfolding u by (rule less.hyps [OF m mid(1) le less.prems(3) h4])
    next
      case False
      then have ge: "f p \<le> f (a ! ?mid)" using key by (simp add: not_less)
      have u: "binarySearch cmp a p left right = binarySearch cmp a p (?mid + 1) right"
        using False \<open>left < right\<close> by (subst binarySearch_unfold) simp
      have "\<forall>i<?mid + 1. f p \<le> f (a ! i)"
      proof (intro allI impI)
        fix i assume i: "i < ?mid + 1"
        show "f p \<le> f (a ! i)"
        proof (cases "i = ?mid")
          case True
          then show ?thesis using ge by simp
        next
          case False
          then have "f (a ! ?mid) \<le> f (a ! i)"
            using nth [of i ?mid] i mid less.prems(2) by simp
          then show ?thesis using ge by simp
        qed
      qed
      then have h3: "\<forall>i<?mid + 1. f p \<le> f (a ! i)" .
      have m: "right - (?mid + 1) < right - left" using mid by linarith
      have le: "?mid + 1 \<le> right" using mid by linarith
      show ?thesis
        unfolding u by (rule less.hyps [OF m le less.prems(2) h3 less.prems(4)])
    qed
  qed
qed

lemma insertPivot_key:
  fixes f :: "'a \<Rightarrow> 'b::linorder"
  assumes key: "\<And>a b. (cmp a b < 0) = (f b < f a)"
    and sorted: "sorted_wrt (\<lambda>x y. f y \<le> f x) a"
  shows "sorted_wrt (\<lambda>x y. f y \<le> f x) (insertPivot cmp a p)"
    and "filter (\<lambda>x. f x = c) (insertPivot cmp a p)
         = filter (\<lambda>x. f x = c) a @ filter (\<lambda>x. f x = c) [p]"
proof -
  let ?k = "binarySearch cmp a p 0 (length a)"
  have h1: "\<forall>i<(0::nat). f p \<le> f (a ! i)" by simp
  have h2: "\<forall>i. length a \<le> i \<and> i < length a \<longrightarrow> f (a ! i) < f p" by auto
  have b: "?k \<le> length a \<and> (\<forall>i<?k. f p \<le> f (a ! i))
           \<and> (\<forall>i. ?k \<le> i \<and> i < length a \<longrightarrow> f (a ! i) < f p)"
    by (rule binarySearch_key [of cmp f a 0 "length a" p, OF key sorted _ _ h1 h2]) simp_all
  have tk: "\<forall>x\<in>set (take ?k a). f p \<le> f x"
    using b by (auto simp: in_set_conv_nth)
  have dr: "\<forall>x\<in>set (drop ?k a). f x < f p"
    using b by (auto simp: in_set_conv_nth)
  have s: "sorted_wrt (\<lambda>x y. f y \<le> f x) (take ?k a @ drop ?k a)"
    using sorted by simp
  have i: "insertPivot cmp a p = take ?k a @ p # drop ?k a"
    by (simp add: insertPivot_def Let_def)
  show "sorted_wrt (\<lambda>x y. f y \<le> f x) (insertPivot cmp a p)"
    unfolding i using s tk dr
    by (auto simp: sorted_wrt_append simp del: append_take_drop_id intro: less_imp_le)
  have f0: "filter (\<lambda>x. f x = c) a
            = filter (\<lambda>x. f x = c) (take ?k a) @ filter (\<lambda>x. f x = c) (drop ?k a)"
    by (metis append_take_drop_id filter_append)
  show "filter (\<lambda>x. f x = c) (insertPivot cmp a p)
         = filter (\<lambda>x. f x = c) a @ filter (\<lambda>x. f x = c) [p]"
  proof (cases "f p = c")
    case True
    then have "\<forall>x\<in>set (drop ?k a). f x \<noteq> c" using dr by auto
    then have "filter (\<lambda>x. f x = c) (drop ?k a) = []" by (simp add: filter_empty_conv)
    then show ?thesis unfolding i using f0 True by simp
  next
    case False
    then show ?thesis unfolding i using f0 by simp
  qed
qed

lemma BinaryInsertionSort_key:
  fixes f :: "'a \<Rightarrow> 'b::linorder"
  assumes key: "\<And>a b. (cmp a b < 0) = (f b < f a)"
  shows "sorted_wrt (\<lambda>x y. f y \<le> f x) a \<Longrightarrow>
         sorted_wrt (\<lambda>x y. f y \<le> f x) (BinaryInsertionSort cmp a rest)
         \<and> filter (\<lambda>x. f x = c) (BinaryInsertionSort cmp a rest)
           = filter (\<lambda>x. f x = c) a @ filter (\<lambda>x. f x = c) rest"
  unfolding BinaryInsertionSort_def
proof (induction rest arbitrary: a)
  case Nil
  then show ?case by simp
next
  case (Cons p rest)
  have s: "sorted_wrt (\<lambda>x y. f y \<le> f x) (insertPivot cmp a p)"
    using insertPivot_key(1) [where cmp = cmp and f = f and a = a and p = p, OF key Cons.prems] .
  have e: "filter (\<lambda>x. f x = c) (insertPivot cmp a p)
         = filter (\<lambda>x. f x = c) a @ filter (\<lambda>x. f x = c) [p]"
    using insertPivot_key(2) [where cmp = cmp and f = f and a = a and p = p and c = c, OF key Cons.prems] .
  show ?case using Cons.IH [OF s] e by simp
qed

lemma sort_js_key:
  fixes f :: "'a \<Rightarrow> 'b::linorder"
  assumes key: "\<And>a b. (cmp a b < 0) = (f b < f a)"
  shows "sorted_wrt (\<lambda>x y. f y \<le> f x) (sort_js cmp xs)"
    and "filter (\<lambda>x. f x = c) (sort_js cmp xs) = filter (\<lambda>x. f x = c) xs"
proof -
  have both: "sorted_wrt (\<lambda>x y. f y \<le> f x) (sort_js cmp xs)
    \<and> filter (\<lambda>x. f x = c) (sort_js cmp xs) = filter (\<lambda>x. f x = c) xs"
  proof (cases "length xs < 2")
    case True
    then have "xs = [] \<or> (\<exists>x. xs = [x])"
      by (cases xs) (auto simp: length_Suc_conv)
    then show ?thesis using True by (auto simp: sort_js_def)
  next
    case False
    obtain n w where cr: "CountAndMakeRun cmp xs = (n, w)" by (cases "CountAndMakeRun cmp xs")
    have s: "sorted_wrt (\<lambda>x y. f y \<le> f x) (take n w)"
      using CountAndMakeRun_key(1) [where cmp = cmp and f = f, OF key cr] .
    have e: "filter (\<lambda>x. f x = c) w = filter (\<lambda>x. f x = c) xs"
      using CountAndMakeRun_key(2) [where cmp = cmp and f = f and c = c, OF key cr] .
    have "filter (\<lambda>x. f x = c) (take n w) @ filter (\<lambda>x. f x = c) (drop n w)
          = filter (\<lambda>x. f x = c) w"
      by (metis append_take_drop_id filter_append)
    then show ?thesis
      using BinaryInsertionSort_key [where cmp = cmp and f = f and a = "take n w" and c = c
            and rest = "drop n w", OF key s] False cr e
      by (simp add: sort_js_def)
  qed
  show "sorted_wrt (\<lambda>x y. f y \<le> f x) (sort_js cmp xs)" using both by simp
  show "filter (\<lambda>x. f x = c) (sort_js cmp xs) = filter (\<lambda>x. f x = c) xs" using both by simp
qed

section \<open>Properties of the search\<close>

subsection \<open>The search as a sort of scored records\<close>

lemma filteredMemoryVectors_eq:
  "filteredMemoryVectors store flt = recordsPassing flt (memoryVectors store)"
  by (cases flt)
     (simp_all add: filteredMemoryVectors_def filterFunction_def [abs_def] recordsPassing_def
        doc_of_def)

lemma map_zip_upt_nth:
  "map (\<lambda>(v, i). F v (xs ! i)) (zip xs [0..<length xs]) = map (\<lambda>v. F v v) xs"
  by (rule nth_equalityI) auto

lemma search_characterisation:
  "similaritySearchVectorWithScore store query k flt
   = take k (sort_js compareScore
       (map (scored store query) (recordsPassing flt (memoryVectors store))))"
proof -
  let ?fmv = "filteredMemoryVectors store flt"
  let ?X = "map (\<lambda>(vector, idx). \<lparr>similarity = MemoryVectorStore.similarity store query (embedding vector),
                                  index = idx\<rparr>) (zip ?fmv [0..<length ?fmv])"
  let ?g = "\<lambda>s. (\<lparr>pageContent = content (?fmv ! index s),
                    metadata = MemoryVector.metadata (?fmv ! index s)\<rparr>, search.similarity s)"
  have cmp: "\<And>a b. compareScore (?g a) (?g b) = compareFn a b"
    by (simp add: compareScore_def compareFn_def)
  have "map ?g ?X
        = map (\<lambda>(v, i). (doc_of (?fmv ! i), MemoryVectorStore.similarity store query (embedding v)))
              (zip ?fmv [0..<length ?fmv])"
    by (simp add: doc_of_def case_prod_unfold)
  also have "\<dots> = map (scored store query) ?fmv"
    using map_zip_upt_nth [of "\<lambda>v w. (doc_of w, MemoryVectorStore.similarity store query (embedding v))" ?fmv]
    by (simp add: scored_def)
  finally have m: "map ?g ?X = map (scored store query) ?fmv" .
  have "map ?g (take k (sort_js compareFn ?X)) = take k (map ?g (sort_js compareFn ?X))"
    by (simp add: take_map)
  also have "\<dots> = take k (sort_js compareScore (map ?g ?X))"
    using map_sort_js [of compareScore ?g compareFn ?X, OF cmp] by simp
  also have "\<dots> = take k (sort_js compareScore (map (scored store query) ?fmv))"
    using m by simp
  finally show ?thesis
    by (simp add: similaritySearchVectorWithScore_def searches_def Let_def filteredMemoryVectors_eq)
qed

lemma length_search:
  "length (similaritySearchVectorWithScore store query k flt)
   = min k (length (recordsPassing flt (memoryVectors store)))"
  by (simp add: search_characterisation length_sort_js min.commute)

subsection \<open>Scores without NaN\<close>

lemma realScore_js_gt:
  "snd a \<noteq> NaN \<Longrightarrow> snd b \<noteq> NaN \<Longrightarrow> js_gt (snd a) (snd b) = (realScore b < realScore a)"
  by (cases a; cases b; cases "snd a"; cases "snd b") auto

lemma realScore_js_ge:
  "snd a \<noteq> NaN \<Longrightarrow> snd b \<noteq> NaN \<Longrightarrow> js_ge (snd a) (snd b) = (realScore b \<le> realScore a)"
  by (cases a; cases b; cases "snd a"; cases "snd b") auto

lemma realScore_Num: "snd a \<noteq> NaN \<Longrightarrow> snd a = Num (realScore a)"
  by (cases a; cases "snd a") auto

lemma compareReal_key: "(compareReal a b < 0) = (realScore b < realScore a)"
  by (simp add: compareReal_def)

lemma sort_js_noNaN:
  assumes "noNaN rs"
  shows "sort_js compareScore rs = sort_js compareReal rs"
proof (rule sort_js_cong)
  fix a b assume "a \<in> set rs" "b \<in> set rs"
  then have "snd a \<noteq> NaN" "snd b \<noteq> NaN"
    using assms by (auto simp: noNaN_def list_all_iff)
  then show "(compareScore a b < 0) = (compareReal a b < 0)"
    by (simp add: compareScore_def compareReal_def realScore_js_gt)
qed

lemma sorted_sort_js:
  assumes "noNaN rs"
  shows "sorted_wrt (\<lambda>a b. js_ge (snd a) (snd b)) (sort_js compareScore rs)"
proof -
  have s: "sorted_wrt (\<lambda>x y. realScore y \<le> realScore x) (sort_js compareReal rs)"
    by (rule sort_js_key(1) [where f = realScore]) (rule compareReal_key)
  have n: "\<forall>x\<in>set (sort_js compareReal rs). snd x \<noteq> NaN"
    using assms by (simp add: set_sort_js noNaN_def list_all_iff)
  have "sorted_wrt (\<lambda>a b. js_ge (snd a) (snd b)) (sort_js compareReal rs)"
    using s by (rule sorted_wrt_mono_rel [rotated]) (use n in \<open>simp add: realScore_js_ge\<close>)
  then show ?thesis by (simp add: sort_js_noNaN [OF assms])
qed

lemma filter_score_noNaN:
  assumes "\<forall>x\<in>set rs. snd x \<noteq> NaN"
  shows "filter (\<lambda>r. snd r = Num v) rs = filter (\<lambda>r. realScore r = v) rs"
proof (rule filter_cong [OF refl])
  fix x assume "x \<in> set rs"
  then have "snd x = Num (realScore x)" using assms realScore_Num by blast
  then show "(snd x = Num v) = (realScore x = v)" by simp
qed

lemma filter_sort_js:
  assumes "noNaN rs"
  shows "filter (\<lambda>r. snd r = c) (sort_js compareScore rs) = filter (\<lambda>r. snd r = c) rs"
proof -
  have n: "\<forall>x\<in>set rs. snd x \<noteq> NaN"
    using assms by (simp add: noNaN_def list_all_iff)
  then have n': "\<forall>x\<in>set (sort_js compareReal rs). snd x \<noteq> NaN"
    by (simp add: set_sort_js)
  show ?thesis
  proof (cases c)
    case NaN
    then show ?thesis
      using n n' by (simp add: sort_js_noNaN [OF assms] filter_empty_conv)
  next
    case (Num v)
    have "filter (\<lambda>r. realScore r = v) (sort_js compareReal rs) = filter (\<lambda>r. realScore r = v) rs"
      by (rule sort_js_key(2) [where f = realScore]) (rule compareReal_key)
    then show ?thesis
      unfolding Num sort_js_noNaN [OF assms]
      by (simp add: filter_score_noNaN [OF n] filter_score_noNaN [OF n'])
  qed
qed

lemma prefix_filter_take: "prefix (filter P (take k xs)) (filter P xs)"
proof -
  have "filter P xs = filter P (take k xs) @ filter P (drop k xs)"
    by (metis append_take_drop_id filter_append)
  then show ?thesis by (simp add: prefix_def)
qed

lemma sorted_search:
  assumes "noNaN (map (scored store query) (recordsPassing flt (memoryVectors store)))"
  shows "sorted_wrt (\<lambda>a b. js_ge (snd a) (snd b)) (similaritySearchVectorWithScore store query k flt)"
  using sorted_sort_js [OF assms] by (simp add: search_characterisation sorted_wrt_take)

lemma ties_search:
  assumes "noNaN (map (scored store query) (recordsPassing flt (memoryVectors store)))"
  shows "prefix (filter (\<lambda>r. snd r = c) (similaritySearchVectorWithScore store query k flt))
          (filter (\<lambda>r. snd r = c)
             (map (scored store query) (recordsPassing flt (memoryVectors store))))"
  using prefix_filter_take [of "\<lambda>r. snd r = c" k
          "sort_js compareScore (map (scored store query) (recordsPassing flt (memoryVectors store)))"]
  by (simp add: search_characterisation filter_sort_js [OF assms])

lemma sqrt_25: "sqrt 25 = 5"
  by (rule real_sqrt_unique) simp_all

lemmas sort_eval =
  sort_js_def BinaryInsertionSort_def insertPivot_def binarySearch.simps Let_def compareFn_def

lemmas search_eval =
  similaritySearchVectorWithScore_def searches_def filteredMemoryVectors_def filterFunction_def
  sort_eval

lemma demo_nan_store_search:
  "similaritySearchVectorWithScore demo_nan_store [1, 0] 3 None
     = [(\<lparr>pageContent = ''a'', metadata = ()\<rparr>, Num 0),
        (\<lparr>pageContent = ''b'', metadata = ()\<rparr>, NaN),
        (\<lparr>pageContent = ''c'', metadata = ()\<rparr>, Num 1)]"
  by (simp add: search_eval demo_nan_store_def demo_cosine_def demo_dot_def)

text \<open>
  C1 as stated fails. With the default cosine the three records score 0, NaN (a zero
  vector) and 1: every comparison with NaN answers 0, the array is one run and stays as
  it is, so a score 0 precedes a score 1, and with \<open>k = 1\<close> the record scoring 0 is
  returned.
\<close>
theorem C1_counterexample:
  "similaritySearchVectorWithScore demo_nan_store [1, 0] 3 None
     = [(\<lparr>pageContent = ''a'', metadata = ()\<rparr>, Num 0),
        (\<lparr>pageContent = ''b'', metadata = ()\<rparr>, NaN),
        (\<lparr>pageContent = ''c'', metadata = ()\<rparr>, Num 1)]
   \<and> \<not> js_ge (Num 0) (Num 1)
   \<and> similaritySearchVectorWithScore demo_nan_store [1, 0] 1 None
     = [(\<lparr>pageContent = ''a'', metadata = ()\<rparr>, Num 0)]"
  by (simp add: search_eval demo_nan_store_def demo_cosine_def demo_dot_def)

text \<open>
  C2 as stated fails. The records score 1, 1, 0, NaN, 0.6, 0.8, 0.6; the NaN keeps the
  first five as one run, and the binary search then puts the last record (index 6)
  before the record at index 4, which has the same score.
\<close>
theorem C2_counterexample:
  "similaritySearchVectorWithScore demo_nan_ties [1, 0] 7 None
     = [(\<lparr>pageContent = ''r0'', metadata = ()\<rparr>, Num 1),
        (\<lparr>pageContent = ''r1'', metadata = ()\<rparr>, Num 1),
        (\<lparr>pageContent = ''r5'', metadata = ()\<rparr>, Num (4 / 5)),
        (\<lparr>pageContent = ''r6'', metadata = ()\<rparr>, Num (3 / 5)),
        (\<lparr>pageContent = ''r2'', metadata = ()\<rparr>, Num 0),
        (\<lparr>pageContent = ''r3'', metadata = ()\<rparr>, NaN),
        (\<lparr>pageContent = ''r4'', metadata = ()\<rparr>, Num (3 / 5))]"
  by (simp add: search_eval demo_nan_ties_def demo_cosine_def demo_dot_def sqrt_25)

text \<open>
  C1, amended. For every store, query embedding, \<open>k\<close> and filter (present or absent),
  \<^verbatim>\<open>similaritySearchVectorWithScore\<close> returns at most \<open>min k n\<close> pairs, \<open>n\<close> the number of
  records that pass the filter; and when no record that passes the filter scores NaN
  against the query, the scores of the returned sequence never increase.
\<close>
theorem C1_search_bounded_and_sorted:
  "length (similaritySearchVectorWithScore store query k flt)
     \<le> min k (length (recordsPassing flt (memoryVectors store)))
   \<and> (noNaN (map (scored store query) (recordsPassing flt (memoryVectors store)))
      \<longrightarrow> sorted_wrt (\<lambda>a b. js_ge (snd a) (snd b))
            (similaritySearchVectorWithScore store query k flt))"
  using length_search [of store query k flt] sorted_search [of store query flt k] by simp

lemma demo_store_filtered_search:
  "similaritySearchVectorWithScore demo_store [1, 0] 5 (Some demo_filter)
     = [(\<lparr>pageContent = ''b'', metadata = ()\<rparr>, Num 0.95),
        (\<lparr>pageContent = ''a'', metadata = ()\<rparr>, Num 0.9)]"
  by (simp add: search_eval demo_store_def demo_dot_def demo_filter_def)

lemma demo_store_passing:
  "map (scored demo_store [1, 0]) (recordsPassing (Some demo_filter) (memoryVectors demo_store))
     = [(\<lparr>pageContent = ''a'', metadata = ()\<rparr>, Num 0.9),
        (\<lparr>pageContent = ''b'', metadata = ()\<rparr>, Num 0.95)]"
  by (simp add: recordsPassing_def scored_def doc_of_def demo_store_def demo_dot_def demo_filter_def)

text \<open>The amended C1 on the example store, with a filter that rejects one record.\<close>
theorem C1_witness:
  "noNaN (map (scored demo_store [1, 0]) (recordsPassing (Some demo_filter) (memoryVectors demo_store)))
   \<and> length (similaritySearchVectorWithScore demo_store [1, 0] 5 (Some demo_filter)) \<le> min 5 2
   \<and> sorted_wrt (\<lambda>a b. js_ge (snd a) (snd b))
        (similaritySearchVectorWithScore demo_store [1, 0] 5 (Some demo_filter))
   \<and> similaritySearchVectorWithScore demo_store [1, 0] 5 (Some demo_filter)
     = [(\<lparr>pageContent = ''b'', metadata = ()\<rparr>, Num 0.95),
        (\<lparr>pageContent = ''a'', metadata = ()\<rparr>, Num 0.9)]"
proof -
  have n: "noNaN (map (scored demo_store [1, 0])
             (recordsPassing (Some demo_filter) (memoryVectors demo_store)))"
    by (simp add: demo_store_passing noNaN_def)
  show ?thesis
    using n C1_search_bounded_and_sorted [of demo_store "[1, 0]" 5 "Some demo_filter"]
    by (simp add: demo_store_filtered_search demo_store_passing)
qed

text \<open>
  C2, amended. When no record that passes the filter scores NaN against the query,
  records with equal scores keep their input order: for every score \<open>c\<close>, the returned
  pairs of score \<open>c\<close> are, in this order, the first of the passing records of score \<open>c\<close>.
  And over three records scored 0.9, 0.95 and 0.95, with \<open>k = 1\<close>, the one result is the
  record at index 1.
\<close>
theorem C2_ties_keep_input_order:
  "(noNaN (map (scored store query) (recordsPassing flt (memoryVectors store))) \<longrightarrow>
      prefix (filter (\<lambda>r. snd r = c) (similaritySearchVectorWithScore store query k flt))
             (filter (\<lambda>r. snd r = c)
                (map (scored store query) (recordsPassing flt (memoryVectors store)))))
   \<and> (memoryVectors store = [v0, v1, v2]
        \<and> MemoryVectorStore.similarity store query (embedding v0) = Num 0.9
        \<and> MemoryVectorStore.similarity store query (embedding v1) = Num 0.95
        \<and> MemoryVectorStore.similarity store query (embedding v2) = Num 0.95
      \<longrightarrow> similaritySearchVectorWithScore store query 1 None = [(doc_of v1, Num 0.95)])"
proof -
  have "similaritySearchVectorWithScore store query 1 None = [(doc_of v1, Num 0.95)]"
    if "memoryVectors store = [v0, v1, v2]"
      and "MemoryVectorStore.similarity store query (embedding v0) = Num 0.9"
      and "MemoryVectorStore.similarity store query (embedding v1) = Num 0.95"
      and "MemoryVectorStore.similarity store query (embedding v2) = Num 0.95"
    using that
    by (simp add: search_eval doc_of_def)
  then show ?thesis using ties_search [of store query flt c k] by blast
qed

text \<open>The amended C2 and its scenario on the example store.\<close>
theorem C2_witness:
  "noNaN (map (scored demo_store [1, 0]) (recordsPassing None (memoryVectors demo_store)))
   \<and> memoryVectors demo_store =
      [\<lparr>content = ''a'', embedding = [0.9, 0], metadata = ()\<rparr>,
       \<lparr>content = ''b'', embedding = [0.95, 1], metadata = ()\<rparr>,
       \<lparr>content = ''c'', embedding = [0.95, 2], metadata = ()\<rparr>]
   \<and> MemoryVectorStore.similarity demo_store [1, 0] [0.9, 0] = Num 0.9
   \<and> MemoryVectorStore.similarity demo_store [1, 0] [0.95, 1] = Num 0.95
   \<and> MemoryVectorStore.similarity demo_store [1, 0] [0.95, 2] = Num 0.95
   \<and> similaritySearchVectorWithScore demo_store [1, 0] 1 None
       = [(\<lparr>pageContent = ''b'', metadata = ()\<rparr>, Num 0.95)]"
proof -
  have n: "noNaN (map (scored demo_store [1, 0]) (recordsPassing None (memoryVectors demo_store)))"
    by (simp add: recordsPassing_def scored_def noNaN_def demo_store_def)
  have h: "memoryVectors demo_store =
      [\<lparr>content = ''a'', embedding = [0.9, 0], metadata = ()\<rparr>,
       \<lparr>content = ''b'', embedding = [0.95, 1], metadata = ()\<rparr>,
       \<lparr>content = ''c'', embedding = [0.95, 2], metadata = ()\<rparr>]
   \<and> MemoryVectorStore.similarity demo_store [1, 0] [0.9, 0] = Num 0.9
   \<and> MemoryVectorStore.similarity demo_store [1, 0] [0.95, 1] = Num 0.95
   \<and> MemoryVectorStore.similarity demo_store [1, 0] [0.95, 2] = Num 0.95"
    by (simp add: demo_store_def demo_dot_def)
  show ?thesis
    using n h C2_ties_keep_input_order [of demo_store "[1, 0]" None "Num 0.95" 1
      "\<lparr>content = ''a'', embedding = [0.9, 0], metadata = ()\<rparr>"
      "\<lparr>content = ''b'', embedding = [0.95, 1], metadata = ()\<rparr>"
      "\<lparr>content = ''c'', embedding = [0.95, 2], metadata = ()\<rparr>"]
    by (simp add: doc_of_def)
qed

text \<open>
  C9. If \<open>k = 0\<close> or the store is empty the search returns the empty sequence; if \<open>k\<close> is
  at least the number of records that pass the caller's filter, it returns exactly those
  records, each paired with its score (as many results, and the same pairs).
\<close>
theorem C9_search_edge_cases:
  "(k = 0 \<or> memoryVectors store = [] \<longrightarrow> similaritySearchVectorWithScore store query k flt = [])
   \<and> (length (recordsPassing flt (memoryVectors store)) \<le> k \<longrightarrow>
        mset (similaritySearchVectorWithScore store query k flt)
          = mset (map (scored store query) (recordsPassing flt (memoryVectors store)))
        \<and> length (similaritySearchVectorWithScore store query k flt)
          = length (recordsPassing flt (memoryVectors store)))"
proof -
  have e: "recordsPassing flt [] = []" by (cases flt) (simp_all add: recordsPassing_def)
  have a: "similaritySearchVectorWithScore store query k flt = []" if "k = 0 \<or> memoryVectors store = []"
    using that by (auto simp: search_characterisation e sort_js_def)
  have b: "mset (similaritySearchVectorWithScore store query k flt)
          = mset (map (scored store query) (recordsPassing flt (memoryVectors store)))"
    if "length (recordsPassing flt (memoryVectors store)) \<le> k"
    using that by (simp add: search_characterisation length_sort_js mset_sort_js)
  show ?thesis using a b length_search [of store query k flt] by auto
qed

text \<open>C9 on the example store with a filter that rejects one record, for \<open>k = 0\<close> and \<open>k = 5\<close>.\<close>
theorem C9_witness:
  "length (recordsPassing (Some demo_filter) (memoryVectors demo_store)) \<le> 5
   \<and> similaritySearchVectorWithScore demo_store [1, 0] 0 (Some demo_filter) = []
   \<and> mset (similaritySearchVectorWithScore demo_store [1, 0] 5 (Some demo_filter))
       = mset (map (scored demo_store [1, 0])
                 (recordsPassing (Some demo_filter) (memoryVectors demo_store)))
   \<and> similaritySearchVectorWithScore demo_store [1, 0] 5 (Some demo_filter)
       = [(\<lparr>pageContent = ''b'', metadata = ()\<rparr>, Num 0.95),
          (\<lparr>pageContent = ''a'', metadata = ()\<rparr>, Num 0.9)]"
proof -
  have h: "length (recordsPassing (Some demo_filter) (memoryVectors demo_store)) \<le> 5"
    by (simp add: recordsPassing_def demo_store_def demo_filter_def doc_of_def)
  show ?thesis
    using h C9_search_edge_cases [of 0 demo_store "[1, 0]" "Some demo_filter"]
      C9_search_edge_cases [of 5 demo_store "[1, 0]" "Some demo_filter"]
    by (simp add: demo_store_filtered_search)
qed

section \<open>Properties of the semantic cache\<close>

lemma cacheDict_getLlmCache:
  "cacheDict (snd (getLlmCache H c llmKey)) =
     (case cacheDict c (indexName H llmKey) of
        Some store \<Rightarrow> cacheDict c
      | None \<Rightarrow> (cacheDict c)(indexName H llmKey \<mapsto> fromExistingIndex (ml_cosine H) (embeddings c) None))"
  by (simp add: getLlmCache_def Let_def split: option.splits)

lemma snd_lookup: "snd (lookup H c prompt' llmKey) = snd (getLlmCache H c llmKey)"
  by (simp add: lookup_def Let_def case_prod_unfold)

lemma fst_lookup:
  "fst (lookup H c prompt' llmKey) =
     (case concatGenerations H [] (matched H c prompt' llmKey) of
        Inl e \<Rightarrow> Inl e
      | Inr generations \<Rightarrow> Inr (if generations = [] then None else Some generations))"
  by (simp add: lookup_def matched_def Let_def case_prod_unfold split: sum.splits)

lemma dom_getLlmCache:
  "dom (cacheDict (snd (getLlmCache H c llmKey))) = insert (indexName H llmKey) (dom (cacheDict c))"
  by (auto simp: cacheDict_getLlmCache split: option.splits if_splits)

lemma dom_update:
  "dom (cacheDict (snd (update H c prompt' llmKey returnVal)))
     = insert (indexName H llmKey) (dom (cacheDict c))"
  by (auto simp: update_def Let_def case_prod_unfold dom_getLlmCache split: sum.splits)

lemma dom_clear:
  "dom (cacheDict (clear H c llmKey)) = dom (cacheDict c) - {indexName H llmKey}"
  by (auto simp: clear_def clear_objects_def Let_def split: option.splits if_splits)

lemma exists_step:
  "indexName H key \<in> dom (cacheDict (run H c ops))
     = touched_since_clear H key (indexName H key \<in> dom (cacheDict c)) ops"
proof (induction ops arbitrary: c)
  case Nil
  show ?case by (simp add: run_def)
next
  case (Cons a ops)
  have r: "run H c (a # ops) = run H (step H c a) ops" by (simp add: run_def)
  have s: "(indexName H key \<in> dom (cacheDict (step H c a))) =
           (case a of
              Lookup p k \<Rightarrow> (if indexName H k = indexName H key then True
                             else indexName H key \<in> dom (cacheDict c))
            | Update p k v \<Rightarrow> (if indexName H k = indexName H key then True
                               else indexName H key \<in> dom (cacheDict c))
            | Clear k \<Rightarrow> (if indexName H k = indexName H key then False
                          else indexName H key \<in> dom (cacheDict c)))"
    by (cases a) (auto simp only: step.simps op.case snd_lookup dom_getLlmCache dom_update dom_clear
        insert_iff Diff_iff singleton_iff if_True if_False split: if_splits)
  show ?case
    unfolding r Cons.IH s by (cases a) simp_all
qed

text \<open>
  C3, amended. After any sequence of calls, the store of a key exists if and only if a
  lookup or an update of its namespace has occurred since the last clear of it (or it
  existed at the start and was not cleared): \<^verbatim>\<open>getLlmCache\<close>, which both calls go through,
  creates the store.
\<close>
theorem C3_store_exists_iff_touched:
  "indexName H key \<in> dom (cacheDict (run H c ops))
     \<longleftrightarrow> touched_since_clear H key (indexName H key \<in> dom (cacheDict c)) ops"
  by (rule exists_step)

text \<open>
  C3 as stated fails: one lookup on the new cache makes the store of its key exist, with
  no update.
\<close>
theorem C3_counterexample:
  "indexName demo_host ''k'' \<in> dom (cacheDict (run demo_host demo_cache [Lookup ''p'' ''k'']))
   \<and> \<not> updated_since_clear demo_host ''k''
          (indexName demo_host ''k'' \<in> dom (cacheDict demo_cache)) [Lookup ''p'' ''k'']"
  by (simp add: run_def snd_lookup dom_getLlmCache demo_cache_def new_MemorySemanticVectorStore_def)

text \<open>
  C10. \<^verbatim>\<open>clear(keyA)\<close> leaves the entry of every key with another index name as it was, and
  changes nothing but the dictionary; when the namespace of \<open>keyA\<close> is absent it leaves
  the whole cache as it was.
\<close>
theorem C10_clear_frame:
  "(indexName H keyB \<noteq> indexName H keyA \<longrightarrow>
      cacheDict (clear H c keyA) (indexName H keyB) = cacheDict c (indexName H keyB))
   \<and> (cacheDict c (indexName H keyA) = None \<longrightarrow> clear H c keyA = c)
   \<and> (clear H c keyA)\<lparr>cacheDict := cacheDict c\<rparr> = c"
  by (simp add: clear_def clear_objects_def Let_def split: option.splits)

lemma matched_empty_store:
  "memoryVectors (vectorStore r) = [] \<Longrightarrow> getRelevantDocuments r queryText = []"
  by (simp add: getRelevantDocuments_def Let_def search_characterisation
      recordsPassing_def sort_js_def)

lemma cacheDict_clear: "cacheDict (clear H c llmKey) (indexName H llmKey) = None"
  by (simp add: clear_def clear_objects_def Let_def split: option.splits)

lemma fst_clear_objects:
  "fst (clear_objects H c llmKey)
     = map_option (\<lambda>store. store\<lparr>memoryVectors := []\<rparr>) (cacheDict c (indexName H llmKey))"
  by (simp add: clear_objects_def dropIndex_def Let_def split: option.splits)

text \<open>
  C6. \<^verbatim>\<open>clear(key)\<close> empties the key's store (the store object it found under the key has
  no vectors after the call) and removes the entry from the dictionary, and a lookup of
  any prompt with that key then returns \<^verbatim>\<open>null\<close>, whatever the namespace held before.
\<close>
theorem C6_lookup_after_clear:
  "fst (clear_objects H c llmKey)
     = map_option (\<lambda>store. store\<lparr>memoryVectors := []\<rparr>) (cacheDict c (indexName H llmKey))
   \<and> cacheDict (clear H c llmKey) (indexName H llmKey) = None
   \<and> fst (lookup H (clear H c llmKey) prompt' llmKey) = Inr None"
proof -
  have "matched H (clear H c llmKey) prompt' llmKey = []"
    unfolding matched_def
    by (rule matched_empty_store)
       (simp add: getLlmCache_def Let_def cacheDict_clear fromVectorStore_def
          fromExistingIndex_def new_MemoryVectorStore_def)
  then show ?thesis by (simp add: fst_lookup cacheDict_clear fst_clear_objects)
qed

lemma loadGeneration_None: "loadGeneration j = None \<longleftrightarrow> \<not> has_string_text j"
  by (cases j) (auto split: option.splits json.splits)

lemma loadGenerations_None: "loadGenerations js = None \<longleftrightarrow> (\<exists>j\<in>set js. \<not> has_string_text j)"
proof (induction js)
  case Nil
  show ?case by simp
next
  case (Cons j js)
  show ?case
  proof (cases "loadGeneration j")
    case None
    then show ?thesis using loadGeneration_None [of j] by simp
  next
    case (Some g)
    then have "has_string_text j" using loadGeneration_None [of j] by simp
    then show ?thesis using Some Cons.IH by (cases "loadGenerations js") auto
  qed
qed

lemma load_fails:
  assumes "JSON_parse H s = None
           \<or> (\<exists>results. JSON_parse H s = Some (JArray results) \<and> (\<exists>j\<in>set results. \<not> has_string_text j))"
  shows "loadGenerationsFromJson H s = Inl (Error (decode_message @ s))"
  using assms
proof
  assume "JSON_parse H s = None"
  then show ?thesis by (simp add: loadGenerationsFromJson_def)
next
  assume "\<exists>results. JSON_parse H s = Some (JArray results) \<and> (\<exists>j\<in>set results. \<not> has_string_text j)"
  then obtain results where p: "JSON_parse H s = Some (JArray results)"
    and "\<exists>j\<in>set results. \<not> has_string_text j" by blast
  then have "loadGenerations results = None" by (simp add: loadGenerations_None)
  then show ?thesis using p by (simp add: loadGenerationsFromJson_def)
qed

lemma maxK_getLlmCache: "maxK (fst (getLlmCache H c llmKey)) = 1"
  by (simp add: getLlmCache_def Let_def fromVectorStore_def split: option.splits)

lemma length_getRelevantDocuments: "length (getRelevantDocuments r queryText) \<le> maxK r"
proof -
  have "length (getRelevantDocuments r queryText)
        \<le> length (similaritySearchVectorWithScore (vectorStore r)
              (embedQuery (embeddings (vectorStore r)) queryText) (maxK r) None)"
    by (simp add: getRelevantDocuments_def Let_def)
  then show ?thesis by (simp add: length_search)
qed

lemma length_matched: "length (matched H c prompt' llmKey) \<le> 1"
  using length_getRelevantDocuments [of "fst (getLlmCache H c llmKey)" prompt']
  by (simp add: matched_def maxK_getLlmCache)

lemma matched_singleton:
  assumes "document \<in> set (matched H c prompt' llmKey)"
  shows "matched H c prompt' llmKey = [document]"
proof (cases "matched H c prompt' llmKey")
  case Nil
  with assms show ?thesis by simp
next
  case (Cons d ds)
  with length_matched [of H c prompt' llmKey] have "ds = []" by simp
  with Cons assms show ?thesis by simp
qed

text \<open>
  C4. If the payload of a document matched by a lookup does not parse as JSON, or parses
  to an array with an element that has no string \<^verbatim>\<open>text\<close> field, the lookup fails with the
  decoding error whose message ends with that raw payload; it does not return \<^verbatim>\<open>null\<close>.
\<close>
theorem C4_malformed_payload_fails_lookup:
  assumes "document \<in> set (matched H c prompt' llmKey)"
    and "payload = return_val (Document.metadata document)"
    and "JSON_parse H payload = None
         \<or> (\<exists>results. JSON_parse H payload = Some (JArray results)
               \<and> (\<exists>j\<in>set results. \<not> has_string_text j))"
  shows "fst (lookup H c prompt' llmKey) = Inl (Error (decode_message @ payload))"
proof -
  have m: "matched H c prompt' llmKey = [document]"
    using assms(1) by (rule matched_singleton)
  have "loadGenerationsFromJson H payload = Inl (Error (decode_message @ payload))"
    using assms(3) by (rule load_fails)
  then show ?thesis
    using assms(2) by (simp add: fst_lookup m)
qed

lemma demo_cosine_self: "demo_cosine [1, 0] [1, 0] = Num 1"
  by (simp add: demo_cosine_def demo_dot_def)

lemma matched_demo_bad:
  "matched demo_host (demo_bad_cache payload) ''p'' ''k'' =
     [\<lparr>pageContent = ''p'',
       metadata = \<lparr>llm_string = ''k'', prompt = ''p'', return_val = payload\<rparr>\<rparr>]"
  by (simp add: matched_def getLlmCache_def demo_bad_cache_def demo_cache_def
      new_MemorySemanticVectorStore_def fromVectorStore_def getRelevantDocuments_def
      search_eval demo_embeddings_def demo_embed_def demo_cosine_self demo_host_def)

lemma JSON_parse_demo: "JSON_parse demo_host = demo_parse"
  by (simp add: demo_host_def)

lemma demo_parse_oops: "demo_parse ''oops'' = None"
  by (simp add: demo_parse_def demo_payloads_def demo_stringify_def)

lemma demo_parse_null: "demo_parse ''[null]'' = Some (JArray [JNull])"
  by (simp add: demo_parse_def demo_payloads_def demo_stringify_def)

text \<open>
  C4 on a cache whose one record of key \<open>k\<close> has the payload \<open>oops\<close>, which is not JSON,
  and on one where it has the payload \<open>[null]\<close>, whose element has no \<^verbatim>\<open>text\<close>.
\<close>
theorem C4_witness:
  "\<lparr>pageContent = ''p'', metadata = \<lparr>llm_string = ''k'', prompt = ''p'', return_val = ''oops''\<rparr>\<rparr>
      \<in> set (matched demo_host (demo_bad_cache ''oops'') ''p'' ''k'')
   \<and> JSON_parse demo_host ''oops'' = None
   \<and> fst (lookup demo_host (demo_bad_cache ''oops'') ''p'' ''k'')
       = Inl (Error ''Could not decode json to list of generations: oops'')
   \<and> \<lparr>pageContent = ''p'', metadata = \<lparr>llm_string = ''k'', prompt = ''p'', return_val = ''[null]''\<rparr>\<rparr>
      \<in> set (matched demo_host (demo_bad_cache ''[null]'') ''p'' ''k'')
   \<and> JSON_parse demo_host ''[null]'' = Some (JArray [JNull])
   \<and> \<not> has_string_text JNull
   \<and> fst (lookup demo_host (demo_bad_cache ''[null]'') ''p'' ''k'')
       = Inl (Error ''Could not decode json to list of generations: [null]'')"
  using C4_malformed_payload_fails_lookup [of
      "\<lparr>pageContent = ''p'', metadata = \<lparr>llm_string = ''k'', prompt = ''p'', return_val = ''oops''\<rparr>\<rparr>"
      demo_host "demo_bad_cache ''oops''" "''p''" "''k''" "''oops''"]
    C4_malformed_payload_fails_lookup [of
      "\<lparr>pageContent = ''p'', metadata = \<lparr>llm_string = ''k'', prompt = ''p'', return_val = ''[null]''\<rparr>\<rparr>"
      demo_host "demo_bad_cache ''[null]''" "''p''" "''k''" "''[null]''"]
  by (simp add: matched_demo_bad demo_parse_oops demo_parse_null JSON_parse_demo decode_message_def)

lemma concatGenerations_ok:
  "list_all (decodable H) docs \<Longrightarrow>
   concatGenerations H acc docs = Inr (acc @ concat (map (decodedEntries H) docs))"
  by (induction docs arbitrary: acc)
     (auto simp: decodable_def decodedEntries_def split: sum.splits)

lemma concatGenerations_fail:
  "\<not> list_all (decodable H) docs \<Longrightarrow> \<exists>e. concatGenerations H acc docs = Inl e"
  by (induction docs arbitrary: acc)
     (auto simp: decodable_def split: sum.splits)

text \<open>
  C7. A lookup returns \<^verbatim>\<open>null\<close> exactly when every matched document decodes and the
  concatenation of the decoded entries is empty; both no matched document and a matched
  document whose payload decodes to the empty list give \<^verbatim>\<open>null\<close>.
\<close>
theorem C7_null_iff_empty_concatenation:
  "(fst (lookup H c prompt' llmKey) = Inr None
      \<longleftrightarrow> list_all (decodable H) (matched H c prompt' llmKey)
          \<and> concat (map (decodedEntries H) (matched H c prompt' llmKey)) = [])
   \<and> (matched H c prompt' llmKey = [] \<longrightarrow> fst (lookup H c prompt' llmKey) = Inr None)
   \<and> (matched H c prompt' llmKey = [document]
        \<and> loadGenerationsFromJson H (return_val (Document.metadata document)) = Inr []
      \<longrightarrow> fst (lookup H c prompt' llmKey) = Inr None)"
proof -
  let ?docs = "matched H c prompt' llmKey"
  have a: "fst (lookup H c prompt' llmKey) = Inr None
      \<longleftrightarrow> list_all (decodable H) ?docs \<and> concat (map (decodedEntries H) ?docs) = []"
  proof (cases "list_all (decodable H) ?docs")
    case True
    then show ?thesis
      using concatGenerations_ok [of H ?docs "[]"] by (simp add: fst_lookup)
  next
    case False
    then obtain e where "concatGenerations H [] ?docs = Inl e"
      using concatGenerations_fail [of H ?docs "[]"] by blast
    then show ?thesis using False by (simp add: fst_lookup)
  qed
  have b: "fst (lookup H c prompt' llmKey) = Inr None" if "?docs = []"
    using that by (simp add: fst_lookup)
  have c: "fst (lookup H c prompt' llmKey) = Inr None"
    if "?docs = [document]"
      "loadGenerationsFromJson H (return_val (Document.metadata document)) = Inr []"
    using that by (simp add: fst_lookup)
  show ?thesis using a b c by blast
qed

section \<open>Updates and the round trip\<close>

lemma namespaceStore_eq:
  "namespaceStore H c llmKey =
     (case cacheDict c (indexName H llmKey) of
        Some store \<Rightarrow> store
      | None \<Rightarrow> fromExistingIndex (ml_cosine H) (embeddings c) None)"
  by (simp add: namespaceStore_def getLlmCache_def Let_def fromVectorStore_def split: option.splits)

lemma memoryVectors_namespaceStore:
  "memoryVectors (namespaceStore H c llmKey) = namespaceVectors H c llmKey"
  by (simp add: namespaceStore_eq namespaceVectors_def fromExistingIndex_def
      new_MemoryVectorStore_def split: option.splits)

lemma consistent_namespaceStore:
  "consistent H E c \<Longrightarrow>
   embeddings (namespaceStore H c llmKey) = E
   \<and> MemoryVectorStore.similarity (namespaceStore H c llmKey) = ml_cosine H"
  by (auto simp: consistent_def namespaceStore_eq fromExistingIndex_def
      new_MemoryVectorStore_def split: option.splits)

lemma addDocuments_one:
  "embedDocuments (embeddings store) [pageContent d] = [e] \<Longrightarrow>
   addDocuments store [d]
     = Inr (store\<lparr>memoryVectors := memoryVectors store @
              [\<lparr>content = pageContent d, embedding = e, metadata = Document.metadata d\<rparr>]\<rparr>)"
  by (simp add: addDocuments_def addVectors_def Let_def)

lemma update_ok:
  assumes "embedDocuments (embeddings (namespaceStore H c llmKey)) [prompt'] = [e]"
  shows "update H c prompt' llmKey returnVal =
     (Inr (),
      c\<lparr>cacheDict := (cacheDict c)(indexName H llmKey \<mapsto>
          (namespaceStore H c llmKey)\<lparr>memoryVectors := memoryVectors (namespaceStore H c llmKey) @
             [\<lparr>content = prompt', embedding = e,
               metadata = \<lparr>llm_string = llmKey, prompt = prompt',
                            return_val = dumpGenerationsToJson H returnVal\<rparr>\<rparr>]\<rparr>)\<rparr>)"
proof -
  let ?d = "\<lparr>pageContent = prompt',
             metadata = \<lparr>llm_string = llmKey, prompt = prompt',
                          return_val = dumpGenerationsToJson H returnVal\<rparr>\<rparr>"
  have a: "retriever_addDocuments (fst (getLlmCache H c llmKey)) [?d]
     = Inr ((namespaceStore H c llmKey)\<lparr>memoryVectors := memoryVectors (namespaceStore H c llmKey) @
             [\<lparr>content = prompt', embedding = e,
               metadata = \<lparr>llm_string = llmKey, prompt = prompt',
                            return_val = dumpGenerationsToJson H returnVal\<rparr>\<rparr>]\<rparr>)"
    using addDocuments_one [of "namespaceStore H c llmKey" ?d e] assms
    by (simp add: retriever_addDocuments_def namespaceStore_def)
  have b: "(snd (getLlmCache H c llmKey))\<lparr>cacheDict :=
              (cacheDict (snd (getLlmCache H c llmKey)))(indexName H llmKey \<mapsto> s)\<rparr>
           = c\<lparr>cacheDict := (cacheDict c)(indexName H llmKey \<mapsto> s)\<rparr>" for s
    by (simp add: getLlmCache_def Let_def split: option.splits)
  show ?thesis
    by (simp add: update_def Let_def case_prod_unfold a b)
qed

lemma consistent_new:
  "consistent H E (new_MemorySemanticVectorStore H E thr sim_arg)"
  by (simp add: consistent_def new_MemorySemanticVectorStore_def)

lemma consistent_getLlmCache:
  "consistent H E c \<Longrightarrow> consistent H E (snd (getLlmCache H c llmKey))"
  by (auto simp: consistent_def getLlmCache_def Let_def fromExistingIndex_def
      new_MemoryVectorStore_def split: option.splits if_splits)

lemma addDocuments_fields:
  "addDocuments store ds = Inr store' \<Longrightarrow>
   embeddings store' = embeddings store
   \<and> MemoryVectorStore.similarity store' = MemoryVectorStore.similarity store"
  by (auto simp: addDocuments_def addVectors_def Let_def split: if_splits)

lemma consistent_update:
  assumes "consistent H E c"
  shows "consistent H E (snd (update H c prompt' llmKey returnVal))"
proof -
  let ?d = "\<lparr>pageContent = prompt',
             metadata = \<lparr>llm_string = llmKey, prompt = prompt',
                          return_val = dumpGenerationsToJson H returnVal\<rparr>\<rparr>"
  have c1: "consistent H E (snd (getLlmCache H c llmKey))"
    using assms by (rule consistent_getLlmCache)
  show ?thesis
  proof (cases "retriever_addDocuments (fst (getLlmCache H c llmKey)) [?d]")
    case (Inl e)
    then show ?thesis using c1 by (simp add: update_def Let_def case_prod_unfold)
  next
    case (Inr store')
    then have "embeddings store' = E \<and> MemoryVectorStore.similarity store' = ml_cosine H"
      using addDocuments_fields [of "namespaceStore H c llmKey" "[?d]" store']
        consistent_namespaceStore [OF assms, of llmKey]
      by (simp add: retriever_addDocuments_def namespaceStore_def)
    then show ?thesis
      using c1 Inr by (auto simp: update_def Let_def case_prod_unfold consistent_def)
  qed
qed

lemma consistent_clear: "consistent H E c \<Longrightarrow> consistent H E (clear H c llmKey)"
  by (auto simp: consistent_def clear_def clear_objects_def Let_def split: option.splits if_splits)

lemma consistent_step: "consistent H E c \<Longrightarrow> consistent H E (step H c a)"
  by (cases a) (simp_all add: snd_lookup consistent_getLlmCache consistent_update consistent_clear)

lemma consistent_run: "consistent H E c \<Longrightarrow> consistent H E (run H c ops)"
  unfolding run_def by (induction ops arbitrary: c) (simp_all add: consistent_step)

lemma consistent_reachable:
  "consistent H E (run H (new_MemorySemanticVectorStore H E thr sim_arg) ops)"
  by (rule consistent_run) (rule consistent_new)

lemma dump_only_text:
  "dumpGenerationsToJson H returnVal
     = dumpGenerationsToJson H (map (\<lambda>g. g\<lparr>generationInfo := None\<rparr>) returnVal)"
  by (simp add: dumpGenerationsToJson_def comp_def)

text \<open>
  C8. In a cache reached by calls from a new one, with a provider that returns one
  embedding \<open>e\<close> for the one text: \<^verbatim>\<open>update\<close> succeeds and appends exactly one record to the
  key's namespace, with the prompt as content, \<open>e\<close> as embedding, and as metadata the key,
  the prompt and the serialization of the array of \<^verbatim>\<open>{ text }\<close> objects; the serialization
  is that of the value with every generation info removed.
\<close>
theorem C8_update_appends_one_record:
  assumes "c = run H (new_MemorySemanticVectorStore H E thr sim_arg) ops"
    and "embedDocuments E [prompt'] = [e]"
  shows "fst (update H c prompt' llmKey returnVal) = Inr ()
    \<and> namespaceVectors H (snd (update H c prompt' llmKey returnVal)) llmKey
        = namespaceVectors H c llmKey @
          [\<lparr>content = prompt', embedding = e,
            metadata = \<lparr>llm_string = llmKey, prompt = prompt',
                         return_val = JSON_stringify H
                           (JArray (map (\<lambda>g. JObject [(''text'', JString (text' g))]) returnVal))\<rparr>\<rparr>]
    \<and> dumpGenerationsToJson H returnVal
        = dumpGenerationsToJson H (map (\<lambda>g. g\<lparr>generationInfo := None\<rparr>) returnVal)"
proof -
  have "consistent H E c"
    unfolding assms(1) by (rule consistent_reachable)
  then have "embedDocuments (embeddings (namespaceStore H c llmKey)) [prompt'] = [e]"
    using consistent_namespaceStore [of H E c llmKey] assms(2) by simp
  then have u: "update H c prompt' llmKey returnVal =
     (Inr (),
      c\<lparr>cacheDict := (cacheDict c)(indexName H llmKey \<mapsto>
          (namespaceStore H c llmKey)\<lparr>memoryVectors := memoryVectors (namespaceStore H c llmKey) @
             [\<lparr>content = prompt', embedding = e,
               metadata = \<lparr>llm_string = llmKey, prompt = prompt',
                            return_val = dumpGenerationsToJson H returnVal\<rparr>\<rparr>]\<rparr>)\<rparr>)"
    by (rule update_ok)
  show ?thesis
    unfolding u
    by (simp add: namespaceVectors_def [of H _ llmKey] memoryVectors_namespaceStore
        dumpGenerationsToJson_def comp_def)
qed

lemma top1_new:
  assumes "\<forall>r\<in>set rs. js_lt (snd r) (snd x)"
  shows "take 1 (sort_js compareScore (rs @ [x])) = [x]"
proof (cases rs)
  case Nil
  then show ?thesis by (simp add: sort_js_def)
next
  case (Cons r0 rs')
  have "js_lt (snd r0) (snd x)" using assms Cons by simp
  then have x: "snd x \<noteq> NaN"
    by (cases "snd r0"; cases "snd x") auto
  have lt: "realScore r < realScore x" if "r \<in> set rs" for r
  proof -
    have "js_lt (snd r) (snd x)" using assms that by simp
    then show ?thesis by (cases r; cases x; cases "snd r"; cases "snd x") auto
  qed
  have rn: "snd r \<noteq> NaN" if "r \<in> set rs" for r
  proof -
    have "js_lt (snd r) (snd x)" using assms that by simp
    then show ?thesis by (cases "snd r") auto
  qed
  have n: "noNaN (rs @ [x])"
    using x rn by (simp add: noNaN_def list_all_iff)
  let ?s = "sort_js compareScore (rs @ [x])"
  have set: "set ?s = insert x (set rs)" by (simp add: set_sort_js)
  have len: "length ?s = Suc (length rs)" by (simp add: length_sort_js)
  have srt: "sorted_wrt (\<lambda>a b. realScore b \<le> realScore a) ?s"
    unfolding sort_js_noNaN [OF n]
    by (rule sort_js_key(1) [where f = realScore]) (rule compareReal_key)
  obtain h t where ht: "?s = h # t" using len by (cases ?s) auto
  have "x \<in> set ?s" using set by simp
  then have "realScore x \<le> realScore h" using srt ht by auto
  moreover have "h \<in> insert x (set rs)" using set ht by auto
  ultimately have "h = x" using lt [of h] by auto
  then show ?thesis using ht by simp
qed

lemma lookup_after_update:
  fixes H :: "('e, number) host"
  assumes cons: "consistent H E c"
    and det: "embedDocuments E [prompt'] = [embedQuery E prompt']"
    and self: "ml_cosine H (embedQuery E prompt') (embedQuery E prompt') = Num 1"
    and thr: "js_lt (scoreThreshold c) (Num 1)"
    and json: "JSON_parse H (dumpGenerationsToJson H [\<lparr>text' = X, generationInfo = gi\<rparr>])
               = Some (JArray [JObject [(''text'', JString X)]])"
    and prior: "\<forall>v\<in>set (namespaceVectors H c llmKey).
                  js_lt (ml_cosine H (embedQuery E prompt') (embedding v)) (Num 1)"
  shows "fst (lookup H (snd (update H c prompt' llmKey [\<lparr>text' = X, generationInfo = gi\<rparr>])) prompt' llmKey)
         = Inr (Some [\<lparr>text' = X, generationInfo = None\<rparr>])"
proof -
  let ?st = "namespaceStore H c llmKey"
  let ?md = "\<lparr>llm_string = llmKey, prompt = prompt',
              return_val = dumpGenerationsToJson H [\<lparr>text' = X, generationInfo = gi\<rparr>]\<rparr>"
  let ?v = "\<lparr>content = prompt', embedding = embedQuery E prompt', metadata = ?md\<rparr>"
  let ?st' = "?st\<lparr>memoryVectors := memoryVectors ?st @ [?v]\<rparr>"
  let ?c' = "c\<lparr>cacheDict := (cacheDict c)(indexName H llmKey \<mapsto> ?st')\<rparr>"
  have st: "embeddings ?st = E" "MemoryVectorStore.similarity ?st = ml_cosine H"
    using consistent_namespaceStore [OF cons, of llmKey] by simp_all
  have u: "snd (update H c prompt' llmKey [\<lparr>text' = X, generationInfo = gi\<rparr>]) = ?c'"
    using update_ok [of H c llmKey prompt' "embedQuery E prompt'" "[\<lparr>text' = X, generationInfo = gi\<rparr>]"]
      st det by simp
  have r: "fst (getLlmCache H ?c' llmKey) = fromVectorStore ?st' (scoreThreshold c) 1"
    by (simp add: getLlmCache_def Let_def)
  have sc: "\<forall>r\<in>set (map (scored ?st' (embedQuery E prompt')) (memoryVectors ?st)).
              js_lt (snd r) (snd (scored ?st' (embedQuery E prompt') ?v))"
    using prior st self by (simp add: scored_def memoryVectors_namespaceStore)
  have s: "similaritySearchVectorWithScore ?st' (embedQuery E prompt') 1 None
           = [scored ?st' (embedQuery E prompt') ?v]"
    using top1_new [OF sc]
    by (simp add: search_characterisation recordsPassing_def)
  have s': "similaritySearchVectorWithScore ?st' (embedQuery E prompt') (Suc 0) None
           = [scored ?st' (embedQuery E prompt') ?v]"
    using s by simp
  have thr': "\<not> js_lt (Num 1) (scoreThreshold c)"
    using thr by (cases "scoreThreshold c") auto
  have m: "matched H ?c' prompt' llmKey = [\<lparr>pageContent = prompt', metadata = ?md\<rparr>]"
    using thr'
    by (simp add: matched_def r getRelevantDocuments_def fromVectorStore_def Let_def st s'
        scored_def doc_of_def self)
  have l: "loadGenerationsFromJson H (dumpGenerationsToJson H [\<lparr>text' = X, generationInfo = gi\<rparr>])
           = Inr [\<lparr>text' = X, generationInfo = None\<rparr>]"
    by (simp add: loadGenerationsFromJson_def json)
  show ?thesis
    unfolding u by (simp add: fst_lookup m l)
qed

text \<open>
  C5, amended. In a cache reached by calls from a new one, with a deterministic provider,
  a cosine that scores the prompt's embedding against itself 1, a threshold below 1, and
  a \<^verbatim>\<open>JSON.parse\<close> that reads back what \<^verbatim>\<open>JSON.stringify\<close> wrote: if every record already in
  the key's namespace scores strictly below 1 against the prompt, then
  \<^verbatim>\<open>update(prompt, key, [{ text: X }])\<close> followed by \<^verbatim>\<open>lookup(prompt, key)\<close> returns the one
  entry with text \<open>X\<close>.
\<close>
theorem C5_round_trip_amended:
  fixes H :: "('e, number) host"
  assumes "c = run H (new_MemorySemanticVectorStore H E thr sim_arg) ops"
    and "embedDocuments E [prompt'] = [embedQuery E prompt']"
    and "ml_cosine H (embedQuery E prompt') (embedQuery E prompt') = Num 1"
    and "js_lt (scoreThreshold c) (Num 1)"
    and "JSON_parse H (JSON_stringify H (JArray [JObject [(''text'', JString X)]]))
           = Some (JArray [JObject [(''text'', JString X)]])"
    and "\<forall>v\<in>set (namespaceVectors H c llmKey).
           js_lt (ml_cosine H (embedQuery E prompt') (embedding v)) (Num 1)"
  shows "fst (lookup H (snd (update H c prompt' llmKey [\<lparr>text' = X, generationInfo = gi\<rparr>])) prompt' llmKey)
         = Inr (Some [\<lparr>text' = X, generationInfo = None\<rparr>])"
proof -
  have cons: "consistent H E c"
    unfolding assms(1) by (rule consistent_reachable)
  have json: "JSON_parse H (dumpGenerationsToJson H [\<lparr>text' = X, generationInfo = gi\<rparr>])
               = Some (JArray [JObject [(''text'', JString X)]])"
    using assms(5) by (simp add: dumpGenerationsToJson_def)
  show ?thesis
    using cons assms(2) assms(3) assms(4) json assms(6) by (rule lookup_after_update)
qed

lemmas demo_defs =
  demo_host_def demo_cache_def demo_embeddings_def demo_embed_def demo_cosine_def demo_dot_def
  demo_parse_def demo_payloads_def demo_stringify_def new_MemorySemanticVectorStore_def

lemmas cache_defs =
  update_def lookup_def getLlmCache_def indexName_def hash_def fromVectorStore_def
  fromExistingIndex_def new_MemoryVectorStore_def retriever_addDocuments_def addDocuments_def
  addVectors_def getRelevantDocuments_def search_eval
  dumpGenerationsToJson_def loadGenerationsFromJson_def

lemma demo_cache_Y_eq:
  "demo_cache_Y = demo_cache\<lparr>cacheDict :=
       [''cache:k'' \<mapsto>
          \<lparr>embeddings = demo_embeddings,
           memoryVectors =
             [\<lparr>content = ''p'', embedding = [1, 0],
               metadata = \<lparr>llm_string = ''k'', prompt = ''p'',
                            return_val = demo_stringify (JArray [JObject [(''text'', JString ''Y'')]])\<rparr>\<rparr>],
           similarity = demo_cosine\<rparr>]\<rparr>"
  by (simp add: demo_cache_Y_def cache_defs demo_host_def demo_cache_def
      new_MemorySemanticVectorStore_def demo_embeddings_def demo_embed_def)

text \<open>
  C5 as stated fails: the namespace already holds a record of the same prompt, with the
  value \<open>Y\<close>; both records score 1, the retriever asks for one result, and the first
  seen wins. The lookup after the update returns \<open>Y\<close> and no entry with text \<open>X\<close>.
\<close>
theorem C5_counterexample:
  "embedDocuments demo_embeddings [''p''] = [embedQuery demo_embeddings ''p'']
   \<and> ml_cosine demo_host (embedQuery demo_embeddings ''p'') (embedQuery demo_embeddings ''p'') = Num 1
   \<and> js_lt (scoreThreshold demo_cache_Y) (Num 1)
   \<and> fst (lookup demo_host
            (snd (update demo_host demo_cache_Y ''p'' ''k'' [\<lparr>text' = ''X'', generationInfo = None\<rparr>]))
            ''p'' ''k'')
       = Inr (Some [\<lparr>text' = ''Y'', generationInfo = None\<rparr>])"
  by (simp add: demo_cache_Y_eq cache_defs demo_defs)


lemma demo_run_Y:
  "run demo_host (new_MemorySemanticVectorStore demo_host demo_embeddings None None)
       [Update ''qq'' ''k'' [\<lparr>text' = ''Y'', generationInfo = None\<rparr>]]
   = demo_cache\<lparr>cacheDict :=
       [''cache:k'' \<mapsto>
          \<lparr>embeddings = demo_embeddings,
           memoryVectors =
             [\<lparr>content = ''qq'', embedding = [0, 1],
               metadata = \<lparr>llm_string = ''k'', prompt = ''qq'',
                            return_val = demo_stringify (JArray [JObject [(''text'', JString ''Y'')]])\<rparr>\<rparr>],
           similarity = demo_cosine\<rparr>]\<rparr>"
  by (simp add: run_def cache_defs demo_host_def demo_cache_def
      new_MemorySemanticVectorStore_def demo_embeddings_def demo_embed_def)

text \<open>
  The amended C5 on a cache whose namespace of \<open>k\<close> holds a record of another prompt,
  orthogonal to \<open>p\<close>.
\<close>
theorem C5_witness:
  "embedDocuments demo_embeddings [''p''] = [embedQuery demo_embeddings ''p'']
   \<and> ml_cosine demo_host (embedQuery demo_embeddings ''p'') (embedQuery demo_embeddings ''p'') = Num 1
   \<and> js_lt (scoreThreshold (run demo_host (new_MemorySemanticVectorStore demo_host demo_embeddings None None
          :: (real list, number, unit) MemorySemanticVectorStore)
        [Update ''qq'' ''k'' [\<lparr>text' = ''Y'', generationInfo = None\<rparr>]])) (Num 1)
   \<and> JSON_parse demo_host (JSON_stringify demo_host (JArray [JObject [(''text'', JString ''X'')]]))
       = Some (JArray [JObject [(''text'', JString ''X'')]])
   \<and> map embedding (namespaceVectors demo_host
          (run demo_host (new_MemorySemanticVectorStore demo_host demo_embeddings None None
              :: (real list, number, unit) MemorySemanticVectorStore)
            [Update ''qq'' ''k'' [\<lparr>text' = ''Y'', generationInfo = None\<rparr>]]) ''k'') = [[0, 1]]
   \<and> js_lt (ml_cosine demo_host (embedQuery demo_embeddings ''p'') [0, 1]) (Num 1)
   \<and> fst (lookup demo_host
            (snd (update demo_host
               (run demo_host (new_MemorySemanticVectorStore demo_host demo_embeddings None None
                   :: (real list, number, unit) MemorySemanticVectorStore)
                 [Update ''qq'' ''k'' [\<lparr>text' = ''Y'', generationInfo = None\<rparr>]])
               ''p'' ''k'' [\<lparr>text' = ''X'', generationInfo = None\<rparr>]))
            ''p'' ''k'')
       = Inr (Some [\<lparr>text' = ''X'', generationInfo = None\<rparr>])"
proof -
  let ?c = "run demo_host (new_MemorySemanticVectorStore demo_host demo_embeddings None None
                   :: (real list, number, unit) MemorySemanticVectorStore)
                 [Update ''qq'' ''k'' [\<lparr>text' = ''Y'', generationInfo = None\<rparr>]]"
  have h1: "embedDocuments demo_embeddings [''p''] = [embedQuery demo_embeddings ''p'']"
    by (simp add: demo_embeddings_def)
  have h2: "ml_cosine demo_host (embedQuery demo_embeddings ''p'') (embedQuery demo_embeddings ''p'') = Num 1"
    by (simp add: demo_defs)
  have h3: "js_lt (scoreThreshold ?c) (Num 1)"
    unfolding demo_run_Y by (simp add: demo_cache_def new_MemorySemanticVectorStore_def)
  have h4: "JSON_parse demo_host (JSON_stringify demo_host (JArray [JObject [(''text'', JString ''X'')]]))
       = Some (JArray [JObject [(''text'', JString ''X'')]])"
    by (simp add: demo_defs)
  have h5: "\<forall>v\<in>set (namespaceVectors demo_host ?c ''k'').
         js_lt (ml_cosine demo_host (embedQuery demo_embeddings ''p'') (embedding v)) (Num 1)"
    unfolding demo_run_Y by (simp add: namespaceVectors_def indexName_def hash_def demo_defs)
  have h6: "map embedding (namespaceVectors demo_host ?c ''k'') = [[0, 1]]"
    unfolding demo_run_Y by (simp add: namespaceVectors_def indexName_def hash_def demo_defs)
  have h7: "js_lt (ml_cosine demo_host (embedQuery demo_embeddings ''p'') [0, 1]) (Num 1)"
    by (simp add: demo_defs)
  show ?thesis
    using h1 h2 h3 h4 h6 h7
      C5_round_trip_amended [OF refl h1 h2 h3 h4 h5, of None]
    by simp
qed

text \<open>C8 on the example cache, for a value that carries generation info.\<close>
theorem C8_witness:
  "embedDocuments demo_embeddings [''p''] = [[1, 0]]
   \<and> fst (update demo_host demo_cache_Y ''p'' ''k''
           [\<lparr>text' = ''X'', generationInfo = Some (JBool True)\<rparr>]) = Inr ()
   \<and> namespaceVectors demo_host
        (snd (update demo_host demo_cache_Y ''p'' ''k''
           [\<lparr>text' = ''X'', generationInfo = Some (JBool True)\<rparr>])) ''k''
      = namespaceVectors demo_host demo_cache_Y ''k'' @
        [\<lparr>content = ''p'', embedding = [1, 0],
          metadata = \<lparr>llm_string = ''k'', prompt = ''p'',
                       return_val = demo_stringify (JArray [JObject [(''text'', JString ''X'')]])\<rparr>\<rparr>]"
proof -
  have c: "demo_cache_Y = run demo_host (new_MemorySemanticVectorStore demo_host demo_embeddings None None)
             [Update ''p'' ''k'' [\<lparr>text' = ''Y'', generationInfo = None\<rparr>]]"
    by (simp add: demo_cache_Y_def run_def demo_cache_def)
  have h: "embedDocuments demo_embeddings [''p''] = [[1, 0]]"
    by (simp add: demo_embeddings_def demo_embed_def)
  show ?thesis
    using h C8_update_appends_one_record [OF c h, of "''k''"
        "[\<lparr>text' = ''X'', generationInfo = Some (JBool True)\<rparr>]"]
    by (simp add: demo_host_def)
qed

lemma demo_cache_empty_payload:
  "snd (update demo_host demo_cache ''p'' ''k'' [])
   = demo_cache\<lparr>cacheDict :=
       [''cache:k'' \<mapsto>
          \<lparr>embeddings = demo_embeddings,
           memoryVectors =
             [\<lparr>content = ''p'', embedding = [1, 0],
               metadata = \<lparr>llm_string = ''k'', prompt = ''p'', return_val = ''[]''\<rparr>\<rparr>],
           similarity = demo_cosine\<rparr>]\<rparr>"
  by (simp add: cache_defs demo_host_def demo_cache_def demo_stringify_def
      new_MemorySemanticVectorStore_def demo_embeddings_def demo_embed_def)

text \<open>
  C7 on the new cache (nothing matches) and after \<^verbatim>\<open>update("p", "k", [])\<close> (the matched
  payload decodes to the empty list): both lookups return \<^verbatim>\<open>null\<close>.
\<close>
theorem C7_witness:
  "matched demo_host demo_cache ''p'' ''k'' = []
   \<and> fst (lookup demo_host demo_cache ''p'' ''k'') = Inr None
   \<and> matched demo_host (snd (update demo_host demo_cache ''p'' ''k'' [])) ''p'' ''k''
       = [\<lparr>pageContent = ''p'',
           metadata = \<lparr>llm_string = ''k'', prompt = ''p'', return_val = ''[]''\<rparr>\<rparr>]
   \<and> loadGenerationsFromJson demo_host ''[]'' = Inr []
   \<and> fst (lookup demo_host (snd (update demo_host demo_cache ''p'' ''k'' [])) ''p'' ''k'') = Inr None"
proof -
  let ?d = "\<lparr>pageContent = ''p'',
             metadata = \<lparr>llm_string = ''k'', prompt = ''p'', return_val = ''[]''\<rparr>\<rparr>"
  have m0: "matched demo_host demo_cache ''p'' ''k'' = []"
    by (simp add: matched_def cache_defs demo_defs)
  have m1: "matched demo_host (snd (update demo_host demo_cache ''p'' ''k'' [])) ''p'' ''k'' = [?d]"
    unfolding demo_cache_empty_payload
    by (simp add: matched_def cache_defs demo_defs)
  have l: "loadGenerationsFromJson demo_host ''[]'' = Inr []"
    by (simp add: loadGenerationsFromJson_def demo_defs)
  show ?thesis
    using m0 m1 l
      C7_null_iff_empty_concatenation [of demo_host demo_cache "''p''" "''k''" ?d]
      C7_null_iff_empty_concatenation [of demo_host
        "snd (update demo_host demo_cache ''p'' ''k'' [])" "''p''" "''k''" ?d]
    by simp
qed

lemma demo_cache_YJ_j:
  "cacheDict demo_cache_YJ (indexName demo_host ''j'')
     = Some \<lparr>embeddings = demo_embeddings,
             memoryVectors =
               [\<lparr>content = ''p'', embedding = [1, 0],
                 metadata = \<lparr>llm_string = ''j'', prompt = ''p'',
                              return_val = demo_stringify (JArray [JObject [(''text'', JString ''X'')]])\<rparr>\<rparr>],
             similarity = demo_cosine\<rparr>"
  unfolding demo_cache_YJ_def demo_cache_Y_eq
  by (simp add: cache_defs demo_host_def demo_cache_def
      new_MemorySemanticVectorStore_def demo_embeddings_def demo_embed_def)

text \<open>
  C10 on the example cache with the two namespaces \<open>k\<close> and \<open>j\<close>: clearing \<open>k\<close> leaves
  the store of \<open>j\<close> and its record as they were, and clearing the absent \<open>z\<close> changes
  nothing.
\<close>
theorem C10_witness:
  "indexName demo_host ''j'' \<noteq> indexName demo_host ''k''
   \<and> cacheDict (clear demo_host demo_cache_YJ ''k'') (indexName demo_host ''j'')
       = Some \<lparr>embeddings = demo_embeddings,
               memoryVectors =
                 [\<lparr>content = ''p'', embedding = [1, 0],
                   metadata = \<lparr>llm_string = ''j'', prompt = ''p'',
                                return_val = demo_stringify (JArray [JObject [(''text'', JString ''X'')]])\<rparr>\<rparr>],
               similarity = demo_cosine\<rparr>
   \<and> cacheDict demo_cache_Y (indexName demo_host ''z'') = None
   \<and> clear demo_host demo_cache_Y ''z'' = demo_cache_Y"
proof -
  have h1: "indexName demo_host ''j'' \<noteq> indexName demo_host ''k''"
    by (simp add: indexName_def hash_def demo_host_def)
  have h2: "cacheDict demo_cache_Y (indexName demo_host ''z'') = None"
    unfolding demo_cache_Y_eq by (simp add: indexName_def hash_def demo_host_def)
  show ?thesis
    using h1 h2 C10_clear_frame [of demo_host "''j''" "''k''" demo_cache_YJ]
      C10_clear_frame [of demo_host "''j''" "''z''" demo_cache_Y]
    by (simp add: demo_cache_YJ_j)
qed

end
